theory Spec2Isabelle
  imports Complex_Main "HOL-Library.Sublist"
begin

section \<open>The Python values and string operations the scripts rely on\<close>

text \<open>
  Text is modelled as ASCII: a \<^typ>\<open>string\<close> is a list of characters with codes below 128.
  Integers are Python's unbounded integers (\<^typ>\<open>int\<close>); the interpreter's optional limit
  on the number of decimal digits in a conversion is not part of the model.
\<close>

subsection \<open>Characters\<close>

definition is_space :: "char \<Rightarrow> bool" where
  \<comment> \<open>\<^verbatim>\<open>str.isspace\<close> and the regular expression class \<^verbatim>\<open>\s\<close> on ASCII:
      TAB, LF, VT, FF, CR, the separators 0x1C..0x1F and the blank.\<close>
  "is_space c = (let n = (of_char c :: nat) in (9 \<le> n \<and> n \<le> 13) \<or> (28 \<le> n \<and> n \<le> 32))"

definition is_digit :: "char \<Rightarrow> bool" where
  "is_digit c = (let n = (of_char c :: nat) in 48 \<le> n \<and> n \<le> 57)"

definition digit_val :: "char \<Rightarrow> nat" where
  "digit_val c = of_char c - 48"

definition upper_char :: "char \<Rightarrow> char" where
  "upper_char c = (let n = (of_char c :: nat) in if 97 \<le> n \<and> n \<le> 122 then char_of (n - 32) else c)"

definition lower_char :: "char \<Rightarrow> char" where
  "lower_char c = (let n = (of_char c :: nat) in if 65 \<le> n \<and> n \<le> 90 then char_of (n + 32) else c)"

subsection \<open>Strings\<close>

definition upper :: "string \<Rightarrow> string" where
  \<comment> \<open>\<^verbatim>\<open>s.upper()\<close>\<close>
  "upper s = map upper_char s"

definition lower :: "string \<Rightarrow> string" where
  \<comment> \<open>\<^verbatim>\<open>s.lower()\<close>\<close>
  "lower s = map lower_char s"

definition strip :: "string \<Rightarrow> string" where
  \<comment> \<open>\<^verbatim>\<open>s.strip()\<close>: white space removed at both ends\<close>
  "strip s = rev (dropWhile is_space (rev (dropWhile is_space s)))"

definition remove_ws :: "string \<Rightarrow> string" where
  \<comment> \<open>\<^verbatim>\<open>re.sub(r"\s+", "", s)\<close>: every run of white space deleted\<close>
  "remove_ws s = filter (\<lambda>c. \<not> is_space c) s"

definition replace_comma :: "string \<Rightarrow> string" where
  \<comment> \<open>\<^verbatim>\<open>s.replace(",", ".")\<close>\<close>
  "replace_comma s = map (\<lambda>c. if c = CHR '','' then CHR ''.'' else c) s"

fun zfill :: "int \<Rightarrow> string \<Rightarrow> string" where
  \<comment> \<open>\<^verbatim>\<open>s.zfill(width)\<close>: zeros go after a leading sign; a string already wide enough
      (or a width that is not positive) leaves the string as it is\<close>
  "zfill w [] = replicate (nat w) CHR ''0''"
| "zfill w (c # cs) =
     (if w \<le> int (length (c # cs)) then c # cs
      else if c = CHR ''+'' \<or> c = CHR ''-''
           then c # replicate (nat w - length (c # cs)) CHR ''0'' @ cs
           else replicate (nat w - length (c # cs)) CHR ''0'' @ c # cs)"

fun py_in :: "string \<Rightarrow> string \<Rightarrow> bool" where
  \<comment> \<open>\<^verbatim>\<open>a in b\<close> on strings: \<open>a\<close> occurs in \<open>b\<close> as a contiguous piece\<close>
  "py_in a [] = (a = [])"
| "py_in a (c # cs) = (prefix a (c # cs) \<or> py_in a cs)"

subsection \<open>Integers as text\<close>

definition dec_char :: "nat \<Rightarrow> char" where
  "dec_char d = char_of (48 + d)"

definition hex_char :: "nat \<Rightarrow> char" where
  \<comment> \<open>upper-case hexadecimal digit\<close>
  "hex_char d = (if d < 10 then char_of (48 + d) else char_of (55 + d))"

fun dec_digits :: "nat \<Rightarrow> string" where
  "dec_digits n = (if n < 10 then [dec_char n] else dec_digits (n div 10) @ [dec_char (n mod 10)])"

fun hex_digits :: "nat \<Rightarrow> string" where
  "hex_digits n = (if n < 16 then [hex_char n] else hex_digits (n div 16) @ [hex_char (n mod 16)])"

declare dec_digits.simps [simp del]
declare hex_digits.simps [simp del]

definition str_of_int :: "int \<Rightarrow> string" where
  \<comment> \<open>\<^verbatim>\<open>str(i)\<close>\<close>
  "str_of_int i = (if i < 0 then CHR ''-'' # dec_digits (nat (- i)) else dec_digits (nat i))"

definition format_zero :: "string \<Rightarrow> int \<Rightarrow> bool \<Rightarrow> string" where
  \<comment> \<open>The format specifications \<^verbatim>\<open>0<w>d\<close> and \<^verbatim>\<open>0<w>X\<close> applied to a number with
      digit string \<open>ds\<close>: zeros are inserted between the sign and the digits until
      the whole text has \<open>w\<close> characters; nothing is ever cut off.\<close>
  "format_zero ds w neg =
     (if neg then CHR ''-'' # replicate (nat w - 1 - length ds) CHR ''0'' @ ds
      else replicate (nat w - length ds) CHR ''0'' @ ds)"

definition format_d :: "int \<Rightarrow> int \<Rightarrow> string" where
  \<comment> \<open>\<^verbatim>\<open>f"{i:0<w>d}"\<close> for a width \<open>w \<ge> 0\<close>\<close>
  "format_d w i = format_zero (dec_digits (nat \<bar>i\<bar>)) w (i < 0)"

definition format_X :: "int \<Rightarrow> int \<Rightarrow> string" where
  \<comment> \<open>\<^verbatim>\<open>f"{i:0<w>X}"\<close> for a width \<open>w \<ge> 0\<close>\<close>
  "format_X w i = format_zero (hex_digits (nat \<bar>i\<bar>)) w (i < 0)"

subsection \<open>Text as integers: \<^verbatim>\<open>int(s)\<close>\<close>

text \<open>
  The exceptions that leave a function. Those of the column search carry what their
  message lists: the headers of the sheet, or each sheet tried with its headers.
\<close>

datatype py_error =
    ValueError
  | OverflowError
  | TypeError
  | KeyError
  | KeyError_columns "string list"
  | KeyError_sheets "(string \<times> string list) list"
  | SystemExit_sheets "(string \<times> string list) list"
  | SheetNotFound

fun digitpart :: "string \<Rightarrow> bool" where
  \<comment> \<open>a digit, then digits each optionally preceded by one underscore\<close>
  "digitpart [] = False"
| "digitpart [c] = is_digit c"
| "digitpart (c # d # r) = (is_digit c \<and> (if d = CHR ''_'' then digitpart r else digitpart (d # r)))"

definition digits_val :: "string \<Rightarrow> nat" where
  "digits_val s = foldl (\<lambda>a c. 10 * a + digit_val c) 0 (filter is_digit s)"

definition split_sign :: "string \<Rightarrow> bool \<times> string" where
  "split_sign s = (case s of
       [] \<Rightarrow> (False, [])
     | c # cs \<Rightarrow> if c = CHR ''-'' then (True, cs) else if c = CHR ''+'' then (False, cs) else (False, s))"

definition is_ascii_space :: "char \<Rightarrow> bool" where
  \<comment> \<open>the white space \<^verbatim>\<open>int\<close> and \<^verbatim>\<open>float\<close> skip at either end of an ASCII text: TAB, LF,
      VT, FF, CR and the blank. The separators 0x1C..0x1F, which \<^verbatim>\<open>str.strip\<close> removes, are
      not skipped: a numeral followed by one of them is refused.\<close>
  "is_ascii_space c = (let n = (of_char c :: nat) in (9 \<le> n \<and> n \<le> 13) \<or> n = 32)"

definition strip_ascii :: "string \<Rightarrow> string" where
  "strip_ascii s = rev (dropWhile is_ascii_space (rev (dropWhile is_ascii_space s)))"

definition py_int_of_str :: "string \<Rightarrow> int option" where
  \<comment> \<open>\<^verbatim>\<open>int(s)\<close> in base ten; \<open>None\<close> stands for the \<^verbatim>\<open>ValueError\<close>\<close>
  "py_int_of_str s =
     (let (neg, ds) = split_sign (strip_ascii s)
      in if digitpart ds then Some (if neg then - int (digits_val ds) else int (digits_val ds))
         else None)"

subsection \<open>Floating-point values\<close>

text \<open>
  A float is a NaN, an infinity, the negative zero or a finite value; a finite binary64
  value is kept as the rational number it denotes. Conversions from text and from
  integers round to the nearest binary64 value, ties to even.
\<close>

datatype pyfloat = FNan | FInf (negative: bool) | FNegZero | FFin rat

fun bitlen :: "nat \<Rightarrow> nat" where
  "bitlen n = (if n = 0 then 0 else Suc (bitlen (n div 2)))"

declare bitlen.simps [simp del]

definition pow_int :: "rat \<Rightarrow> int \<Rightarrow> rat" where
  "pow_int b e = (if 0 \<le> e then b ^ nat e else 1 / b ^ nat (- e))"

definition floor_log2 :: "rat \<Rightarrow> int" where
  \<comment> \<open>for \<open>q > 0\<close>: the \<open>e\<close> with \<open>2^e \<le> q < 2^(e+1)\<close>\<close>
  "floor_log2 q =
     (let (a, b) = quotient_of q;
          g = int (bitlen (nat a)) - int (bitlen (nat b))
      in if pow_int 2 g \<le> q then g else g - 1)"

definition round_half_even :: "rat \<Rightarrow> int" where
  "round_half_even x =
     (let f = \<lfloor>x\<rfloor>; d = x - of_int f
      in if d < 1 / 2 then f else if 1 / 2 < d then f + 1 else if even f then f else f + 1)"

definition round_double_pos :: "rat \<Rightarrow> pyfloat" where
  \<comment> \<open>the binary64 value nearest to \<open>q > 0\<close>: 53 significant bits, exponent at least
      \<open>-1074\<close> for the last bit, infinity when the rounded value reaches \<open>2^1024\<close>\<close>
  "round_double_pos q =
     (let ulp = pow_int 2 (max (floor_log2 q - 52) (- 1074));
          r = of_int (round_half_even (q / ulp)) * ulp
      in if 1024 \<le> floor_log2 r then FInf False else FFin r)"

definition round_double :: "bool \<Rightarrow> rat \<Rightarrow> pyfloat" where
  \<comment> \<open>sign and magnitude \<open>q \<ge> 0\<close> to the nearest binary64 value\<close>
  "round_double neg q =
     (if q = 0 then (if neg then FNegZero else FFin 0)
      else case round_double_pos q of
             FInf _ \<Rightarrow> FInf neg
           | FFin r \<Rightarrow> if \<not> neg then FFin r else if r = 0 then FNegZero else FFin (- r)
           | f \<Rightarrow> f)"

definition int_of_float :: "pyfloat \<Rightarrow> py_error + int" where
  \<comment> \<open>\<^verbatim>\<open>int(x)\<close> on a float: truncation toward zero\<close>
  "int_of_float x = (case x of
       FNan \<Rightarrow> Inl ValueError
     | FInf _ \<Rightarrow> Inl OverflowError
     | FNegZero \<Rightarrow> Inr 0
     | FFin q \<Rightarrow> Inr (if 0 \<le> q then \<lfloor>q\<rfloor> else \<lceil>q\<rceil>))"

definition float_of_int :: "int \<Rightarrow> py_error + pyfloat" where
  \<comment> \<open>\<^verbatim>\<open>float(i)\<close> on an integer\<close>
  "float_of_int i = (case round_double (i < 0) (of_int \<bar>i\<bar>) of
       FInf _ \<Rightarrow> Inl OverflowError
     | f \<Rightarrow> Inr f)"

subsection \<open>Text as floats: \<^verbatim>\<open>float(s)\<close>\<close>

fun underscores_ok :: "char \<Rightarrow> string \<Rightarrow> bool" where
  \<comment> \<open>an underscore stands only between two digits; the first argument is the
      character before\<close>
  "underscores_ok prev [] = (prev \<noteq> CHR ''_'')"
| "underscores_ok prev (c # cs) =
     (if c = CHR ''_'' then is_digit prev \<and> underscores_ok c cs
      else if prev = CHR ''_'' then is_digit c \<and> underscores_ok c cs
      else underscores_ok c cs)"

definition span_digits :: "string \<Rightarrow> string \<times> string" where
  "span_digits s = (takeWhile is_digit s, dropWhile is_digit s)"

definition parse_exponent :: "string \<Rightarrow> int option" where
  \<comment> \<open>what follows the mantissa: nothing, or \<^verbatim>\<open>e\<close>/\<^verbatim>\<open>E\<close>, an optional sign and digits\<close>
  "parse_exponent s = (case s of
       [] \<Rightarrow> Some 0
     | c # cs \<Rightarrow>
         if c = CHR ''e'' \<or> c = CHR ''E'' then
           (let (neg, ds) = split_sign cs
            in if ds \<noteq> [] \<and> list_all is_digit ds
               then Some (if neg then - int (digits_val ds) else int (digits_val ds))
               else None)
         else None)"

definition parse_decimal :: "string \<Rightarrow> rat option" where
  \<comment> \<open>an unsigned decimal number: digits, optional point, digits, optional exponent,
      with a digit on at least one side of the point\<close>
  "parse_decimal s =
     (let (ip, r1) = span_digits s;
          (fp, r2) = (case r1 of
                        [] \<Rightarrow> ([], [])
                      | c # cs \<Rightarrow> if c = CHR ''.'' then span_digits cs else ([], r1))
      in if ip = [] \<and> fp = [] then None
         else case parse_exponent r2 of
                None \<Rightarrow> None
              | Some e \<Rightarrow> Some (of_nat (digits_val (ip @ fp)) * pow_int 10 (e - int (length fp))))"

definition py_float_of_str :: "string \<Rightarrow> pyfloat option" where
  \<comment> \<open>\<^verbatim>\<open>float(s)\<close>; \<open>None\<close> stands for the \<^verbatim>\<open>ValueError\<close>\<close>
  "py_float_of_str s =
     (let t = strip_ascii s
      in if \<not> underscores_ok (CHR 0x00) t then None
         else let (neg, r) = split_sign (filter (\<lambda>c. c \<noteq> CHR ''_'') t)
              in case parse_decimal r of
                   Some q \<Rightarrow> Some (round_double neg q)
                 | None \<Rightarrow>
                     if lower r = ''inf'' \<or> lower r = ''infinity'' then Some (FInf neg)
                     else if lower r = ''nan'' then Some FNan
                     else None)"

subsection \<open>Floats as text: \<^verbatim>\<open>str(x)\<close>\<close>

text \<open>
  The text of a finite float is the shortest decimal numeral that converts back to the
  same binary64 value (the nearest such numeral when several have that length), written
  with an exponent when the decimal point would lie more than 16 places to the right of
  the first digit or 4 or more places to its left.
\<close>

definition floor_log10 :: "rat \<Rightarrow> int" where
  \<comment> \<open>for \<open>q > 0\<close>: the \<open>e\<close> with \<open>10^e \<le> q < 10^(e+1)\<close>\<close>
  "floor_log10 q =
     (let (a, b) = quotient_of q;
          g = int (length (dec_digits (nat a))) - int (length (dec_digits (nat b)))
      in if pow_int 10 g \<le> q then g else g - 1)"

definition roundtrips :: "rat \<Rightarrow> int \<Rightarrow> int \<Rightarrow> bool" where
  "roundtrips q m p = (round_double_pos (of_int m * pow_int 10 p) = FFin q)"

definition try_digits :: "nat \<Rightarrow> rat \<Rightarrow> int \<Rightarrow> (int \<times> int) option" where
  \<comment> \<open>a numeral \<open>m * 10^p\<close> of \<open>n\<close> significant digits that converts back to \<open>q\<close>, if any\<close>
  "try_digits n q e =
     (let p = e - int n + 1;
          x = q / pow_int 10 p;
          lo = \<lfloor>x\<rfloor>;
          hi = lo + 1;
          d = x - of_int lo
      in if roundtrips q lo p \<and> roundtrips q hi p
         then Some (if d < 1 / 2 then lo else if 1 / 2 < d then hi else if even lo then lo else hi, p)
         else if roundtrips q lo p then Some (lo, p)
         else if roundtrips q hi p then Some (hi, p)
         else None)"

function shortest :: "nat \<Rightarrow> rat \<Rightarrow> int \<Rightarrow> int \<times> int" where
  "shortest n q e =
     (case try_digits n q e of
        Some r \<Rightarrow> r
      | None \<Rightarrow> if 17 \<le> n then (round_half_even (q / pow_int 10 (e - 16)), e - 16)
                else shortest (Suc n) q e)"
  by pat_completeness auto
termination
  by (relation "measure (\<lambda>(n, q, e). 17 - n)") auto

declare shortest.simps [simp del]

definition repr_pos :: "rat \<Rightarrow> string" where
  "repr_pos q =
     (let (m, p) = shortest 1 q (floor_log10 q);
          full = dec_digits (nat m);
          ds = rev (dropWhile (\<lambda>c. c = CHR ''0'') (rev full));
          decpt = int (length full) + p
      in if decpt \<le> - 4 \<or> 16 < decpt then
           (case ds of
              [] \<Rightarrow> []
            | c # cs \<Rightarrow> c # (if cs = [] then [] else CHR ''.'' # cs))
           @ CHR ''e'' # (if decpt - 1 < 0 then CHR ''-'' else CHR ''+'')
           # zfill 2 (dec_digits (nat \<bar>decpt - 1\<bar>))
         else if decpt \<le> 0 then ''0.'' @ replicate (nat (- decpt)) CHR ''0'' @ ds
         else if int (length ds) \<le> decpt then ds @ replicate (nat decpt - length ds) CHR ''0'' @ ''.0''
         else take (nat decpt) ds @ CHR ''.'' # drop (nat decpt) ds)"

definition str_of_float :: "pyfloat \<Rightarrow> string" where
  "str_of_float x = (case x of
       FNan \<Rightarrow> ''nan''
     | FInf neg \<Rightarrow> if neg then ''-inf'' else ''inf''
     | FNegZero \<Rightarrow> ''-0.0''
     | FFin q \<Rightarrow> if q = 0 then ''0.0'' else if q < 0 then CHR ''-'' # repr_pos (- q) else repr_pos q)"

subsection \<open>Field values\<close>

text \<open>A raw field of a table row: absent, an integer, a float or text.\<close>

datatype pyval = PNone | PInt int | PFloat pyfloat | PStr string

definition isna :: "pyval \<Rightarrow> bool" where
  \<comment> \<open>\<^verbatim>\<open>pd.isna(val)\<close> on a scalar\<close>
  "isna v = (case v of PNone \<Rightarrow> True | PFloat f \<Rightarrow> f = FNan | _ \<Rightarrow> False)"

definition py_str :: "pyval \<Rightarrow> string" where
  \<comment> \<open>\<^verbatim>\<open>str(val)\<close>\<close>
  "py_str v = (case v of
       PNone \<Rightarrow> ''None''
     | PInt i \<Rightarrow> str_of_int i
     | PFloat f \<Rightarrow> str_of_float f
     | PStr s \<Rightarrow> s)"

definition py_int :: "pyval \<Rightarrow> py_error + int" where
  \<comment> \<open>\<^verbatim>\<open>int(val)\<close>\<close>
  "py_int v = (case v of
       PNone \<Rightarrow> Inl TypeError
     | PInt i \<Rightarrow> Inr i
     | PFloat f \<Rightarrow> int_of_float f
     | PStr s \<Rightarrow> (case py_int_of_str s of None \<Rightarrow> Inl ValueError | Some i \<Rightarrow> Inr i))"

definition py_float :: "pyval \<Rightarrow> py_error + pyfloat" where
  \<comment> \<open>\<^verbatim>\<open>float(val)\<close>\<close>
  "py_float v = (case v of
       PNone \<Rightarrow> Inl TypeError
     | PInt i \<Rightarrow> float_of_int i
     | PFloat f \<Rightarrow> Inr f
     | PStr s \<Rightarrow> (case py_float_of_str s of None \<Rightarrow> Inl ValueError | Some f \<Rightarrow> Inr f))"

definition format_hex :: "int \<Rightarrow> int \<Rightarrow> py_error + string" where
  \<comment> \<open>\<^verbatim>\<open>f"{ival:0{width}X}"\<close>: a negative width does not make a format specification\<close>
  "format_hex width ival = (if width < 0 then Inl ValueError else Inr (format_X width ival))"

section \<open>Identifier synthesis in test.py\<close>

definition norm_digits :: "pyval \<Rightarrow> int option \<Rightarrow> int option \<Rightarrow> py_error + string" where
  \<comment> \<open>\<open>max_width\<close> is accepted and has no effect, as in the source\<close>
  "norm_digits val min_width max_width =
     (if isna val then Inr []
      else case (case val of
                   PInt _ \<Rightarrow> map_sum id str_of_int (py_int val)
                 | PFloat _ \<Rightarrow> map_sum id str_of_int (py_int val)
                 | _ \<Rightarrow> Inr (strip (py_str val))) of
             Inl e \<Rightarrow> Inl e
           | Inr s0 \<Rightarrow>
               let s = remove_ws s0
               in Inr (case min_width of
                         None \<Rightarrow> s
                       | Some w \<Rightarrow> if w \<noteq> 0 then (if int (length s) < w then zfill w s else s) else s))"

definition to_hex :: "pyval \<Rightarrow> int \<Rightarrow> py_error + string" where
  "to_hex val width =
     (if isna val then Inr []
      else case (case py_int val of
                   Inr i \<Rightarrow> Inr i
                 | Inl _ \<Rightarrow> (case py_float val of Inl e \<Rightarrow> Inl e | Inr f \<Rightarrow> int_of_float f)) of
             Inl e \<Rightarrow> Inl e
           | Inr ival \<Rightarrow> format_hex width ival)"

definition mnc_str :: "string \<Rightarrow> string \<Rightarrow> string" where
  \<comment> \<open>the dispatch on \<open>mnc_mode\<close> inside \<open>build_id\<close>\<close>
  "mnc_str mnc_mode raw_mnc =
     (if mnc_mode = ''2'' then zfill 2 raw_mnc
      else if mnc_mode = ''3'' then zfill 3 raw_mnc
      else case py_int_of_str raw_mnc of
             Some mnc_int \<Rightarrow> if 100 \<le> mnc_int then format_d 3 mnc_int else format_d 2 mnc_int
           | None \<Rightarrow> raw_mnc)"

definition build_id ::
  "pyval \<Rightarrow> pyval \<Rightarrow> pyval \<Rightarrow> pyval \<Rightarrow> int \<Rightarrow> string \<Rightarrow> int \<Rightarrow> int \<Rightarrow> py_error + string" where
  "build_id mcc mnc lac ci mcc_width mnc_mode lac_width ci_width =
     (case (if mcc_width \<noteq> 0 then norm_digits mcc (Some mcc_width) (Some mcc_width)
            else norm_digits mcc None None) of
        Inl e \<Rightarrow> Inl e
      | Inr mcc_s \<Rightarrow>
     (case norm_digits mnc None None of
        Inl e \<Rightarrow> Inl e
      | Inr raw_mnc \<Rightarrow>
     (case to_hex lac lac_width of
        Inl e \<Rightarrow> Inl e
      | Inr lac_hex \<Rightarrow>
     (case to_hex ci ci_width of
        Inl e \<Rightarrow> Inl e
      | Inr ci_hex \<Rightarrow> Inr (upper (mcc_s @ mnc_str mnc_mode raw_mnc @ lac_hex @ ci_hex))))))"

type_synonym row = "pyval \<times> pyval \<times> pyval \<times> pyval"

text \<open>
  test.py does not hand the values of the table to the builder as the database holds
  them: \<^verbatim>\<open>pd.read_sql\<close> puts them in a data frame, and \<^verbatim>\<open>iterrows\<close> walks the frame.

  The frame gives each column one type. A column of integers alone is an integer column.
  A column of numbers with an absent value or a float among them is a float column: its
  integers are rounded to the nearest binary64 value and its absent values become NaN. A
  column that holds a text, or nothing but absent values, is an object column and keeps
  its values as they are. The integers of a database column fit 64 bits; an integer
  beyond that range is taken to make its column an object column.

  \<^verbatim>\<open>iterrows\<close> hands each row over in the common type of the columns: when no column is
  an object column and some column is a float column, every value of the row is a float.
\<close>

datatype dtype = Int64 | Float64 | Object

definition in_int64 :: "int \<Rightarrow> bool" where
  "in_int64 i = (- 9223372036854775808 \<le> i \<and> i \<le> 9223372036854775807)"

definition column_dtype :: "pyval list \<Rightarrow> dtype" where
  "column_dtype vs =
     (if list_ex (\<lambda>v. case v of PStr _ \<Rightarrow> True | PInt i \<Rightarrow> \<not> in_int64 i | _ \<Rightarrow> False) vs then Object
      else if list_all (\<lambda>v. v = PNone) vs then Object
      else if list_all (\<lambda>v. case v of PInt _ \<Rightarrow> True | _ \<Rightarrow> False) vs then Int64
      else Float64)"

definition as_float64 :: "pyval \<Rightarrow> pyval" where
  \<comment> \<open>a value of a numeric column as a float\<close>
  "as_float64 v = (case v of
       PNone \<Rightarrow> PFloat FNan
     | PInt i \<Rightarrow> PFloat (round_double (i < 0) (of_int \<bar>i\<bar>))
     | _ \<Rightarrow> v)"

type_synonym frame = "(dtype \<times> dtype \<times> dtype \<times> dtype) \<times> row list"

definition read_sql :: "row list \<Rightarrow> frame" where
  \<comment> \<open>\<^verbatim>\<open>pd.read_sql(sql, conn)\<close> on the four selected columns of the table\<close>
  "read_sql table =
     (let d1 = column_dtype (map (\<lambda>(mcc, mnc, lac, ci). mcc) table);
          d2 = column_dtype (map (\<lambda>(mcc, mnc, lac, ci). mnc) table);
          d3 = column_dtype (map (\<lambda>(mcc, mnc, lac, ci). lac) table);
          d4 = column_dtype (map (\<lambda>(mcc, mnc, lac, ci). ci) table);
          typed = (\<lambda>d v. if d = Float64 then as_float64 v else v)
      in ((d1, d2, d3, d4),
          map (\<lambda>(mcc, mnc, lac, ci). (typed d1 mcc, typed d2 mnc, typed d3 lac, typed d4 ci)) table))"

definition iterrows :: "frame \<Rightarrow> row list" where
  \<comment> \<open>the rows \<^verbatim>\<open>rows.iterrows()\<close> yields, each in the common type of the columns\<close>
  "iterrows fr = (case fr of ((d1, d2, d3, d4), rows) \<Rightarrow>
       if Object \<notin> set [d1, d2, d3, d4] \<and> Float64 \<in> set [d1, d2, d3, d4]
       then map (\<lambda>(mcc, mnc, lac, ci). (as_float64 mcc, as_float64 mnc, as_float64 lac, as_float64 ci)) rows
       else rows)"

fun append_ids :: "row list \<Rightarrow> string \<Rightarrow> int \<Rightarrow> int \<Rightarrow> py_error + string list" where
  \<comment> \<open>the loop of \<open>load_access_compound_ids\<close> over the rows of the frame\<close>
  "append_ids [] mnc_mode lac_width ci_width = Inr []"
| "append_ids ((mcc, mnc, lac, ci) # rows) mnc_mode lac_width ci_width =
     (case build_id mcc mnc lac ci 3 mnc_mode lac_width ci_width of
        Inl e \<Rightarrow> Inl e
      | Inr s \<Rightarrow>
          (case append_ids rows mnc_mode lac_width ci_width of
             Inl e \<Rightarrow> Inl e
           | Inr ids \<Rightarrow> Inr (if s \<noteq> [] then s # ids else ids)))"

definition load_access_compound_ids :: "row list \<Rightarrow> string \<Rightarrow> int \<Rightarrow> int \<Rightarrow> py_error + string list" where
  \<comment> \<open>the first argument is the table the query selects from\<close>
  "load_access_compound_ids table mnc_mode lac_width ci_width =
     append_ids (iterrows (read_sql table)) mnc_mode lac_width ci_width"

section \<open>Identifier synthesis in test2.py\<close>

text \<open>The settings at the head of the script, with the values the file gives them.\<close>

datatype sheet_sel = SheetName string | SheetIndex nat

record settings =
  GCI_SHEET :: "sheet_sel option"
  GCI_COLUMN :: string
  SAI_SHEET :: "sheet_sel option"
  SAI_COLUMN :: string
  MNC_MODE :: string
  LAC_HEX_WIDTH :: int
  CI_HEX_WIDTH :: int

definition default_settings :: settings where
  "default_settings =
     \<lparr>GCI_SHEET = None, GCI_COLUMN = ''GCI'', SAI_SHEET = None, SAI_COLUMN = ''SAI'',
      MNC_MODE = ''auto'', LAC_HEX_WIDTH = 4, CI_HEX_WIDTH = 4\<rparr>"

definition t2_digits :: "pyval \<Rightarrow> string" where
  \<comment> \<open>\<^verbatim>\<open>_digits\<close>\<close>
  "t2_digits s = (if isna s then [] else strip (remove_ws (py_str s)))"

definition t2_to_hex :: "pyval \<Rightarrow> int \<Rightarrow> py_error + string" where
  \<comment> \<open>\<^verbatim>\<open>_to_hex\<close>\<close>
  "t2_to_hex val width =
     (if isna val \<or> strip (py_str val) = [] then Inr []
      else case (case py_int val of
                   Inr i \<Rightarrow> Inr i
                 | Inl _ \<Rightarrow> (case py_float (PStr (replace_comma (py_str val))) of
                               Inl e \<Rightarrow> Inl e
                             | Inr f \<Rightarrow> int_of_float f)) of
             Inl e \<Rightarrow> Inl e
           | Inr ival \<Rightarrow> format_hex width ival)"

definition t2_mnc_s :: "string \<Rightarrow> string \<Rightarrow> string" where
  \<comment> \<open>the MNC part of \<open>build_id\<close>: the attempt to read \<open>mnc_raw\<close> as an integer, then
      the dispatch on \<open>mnc_mode\<close>\<close>
  "t2_mnc_s mnc_mode mnc_raw =
     (let mnc_i = py_int_of_str mnc_raw
      in if mnc_mode = ''2'' then zfill 2 mnc_raw
         else if mnc_mode = ''3'' then zfill 3 mnc_raw
         else case mnc_i of
                Some i \<Rightarrow> if i < 100 then format_d 2 i else format_d 3 i
              | None \<Rightarrow> mnc_raw)"

definition t2_build_id ::
  "pyval \<Rightarrow> pyval \<Rightarrow> pyval \<Rightarrow> pyval \<Rightarrow> string \<Rightarrow> int \<Rightarrow> int \<Rightarrow> py_error + string" where
  "t2_build_id mcc mnc lac ci mnc_mode lac_w ci_w =
     (let mcc_s = zfill 3 (t2_digits mcc);
          mnc_s = t2_mnc_s mnc_mode (t2_digits mnc)
      in case t2_to_hex lac lac_w of
           Inl e \<Rightarrow> Inl e
         | Inr lac_hex \<Rightarrow>
             (case t2_to_hex ci ci_w of
                Inl e \<Rightarrow> Inl e
              | Inr ci_hex \<Rightarrow> Inr (upper (mcc_s @ mnc_s @ lac_hex @ ci_hex))))"

fun build_all :: "settings \<Rightarrow> row list \<Rightarrow> py_error + string list" where
  \<comment> \<open>the loop of \<open>fetch_access_ids\<close> that appends one identifier per row\<close>
  "build_all cfg [] = Inr []"
| "build_all cfg ((mcc, mnc, lac, ci) # rows) =
     (case t2_build_id mcc mnc lac ci (MNC_MODE cfg) (LAC_HEX_WIDTH cfg) (CI_HEX_WIDTH cfg) of
        Inl e \<Rightarrow> Inl e
      | Inr s \<Rightarrow> (case build_all cfg rows of Inl e \<Rightarrow> Inl e | Inr ids \<Rightarrow> Inr (s # ids)))"

definition fetch_access_ids :: "settings \<Rightarrow> row list \<Rightarrow> py_error + string list" where
  \<comment> \<open>the rows are those of \<^verbatim>\<open>cur.fetchall()\<close>: the values as the database holds them\<close>
  "fetch_access_ids cfg rows = map_sum id (filter (\<lambda>s. s \<noteq> [])) (build_all cfg rows)"

section \<open>Reading a spreadsheet column\<close>

text \<open>
  A parsed sheet is the list of its columns, each a header with its cells, in the order
  of the sheet; a cell is empty (\<open>None\<close>) or holds the text \<^verbatim>\<open>str\<close> gives for its value.
  A workbook is the list of its named sheets in the order of the file. A Python
  dictionary is kept as the list of its items in insertion order.
\<close>

type_synonym cell = "string option"
type_synonym dataframe = "(string \<times> cell list) list"
type_synonym workbook = "(string \<times> dataframe) list"

definition columns :: "dataframe \<Rightarrow> string list" where
  \<comment> \<open>\<^verbatim>\<open>df.columns\<close>\<close>
  "columns df = map fst df"

fun dict_set :: "('k \<times> 'v) list \<Rightarrow> 'k \<Rightarrow> 'v \<Rightarrow> ('k \<times> 'v) list" where
  \<comment> \<open>\<^verbatim>\<open>d[k] = v\<close>: a key already present keeps its place and takes the new value\<close>
  "dict_set [] k v = [(k, v)]"
| "dict_set ((k', v') # d) k v = (if k' = k then (k', v) # d else (k', v') # dict_set d k v)"

definition read_sheet :: "workbook \<Rightarrow> sheet_sel \<Rightarrow> py_error + dataframe" where
  \<comment> \<open>\<^verbatim>\<open>pd.read_excel(path, sheet_name=...)\<close> for one sheet, by name or by position\<close>
  "read_sheet wb sel = (case sel of
       SheetName n \<Rightarrow> (case map_of wb n of None \<Rightarrow> Inl SheetNotFound | Some df \<Rightarrow> Inr df)
     | SheetIndex i \<Rightarrow> if i < length wb then Inr (snd (wb ! i)) else Inl SheetNotFound)"

primrec dropna :: "cell list \<Rightarrow> string list" where
  "dropna [] = []"
| "dropna (c # cs) = (case c of None \<Rightarrow> dropna cs | Some x \<Rightarrow> x # dropna cs)"

definition clean_cells :: "cell list \<Rightarrow> string list" where
  \<comment> \<open>empty cells dropped, then each text stripped, upper-cased and freed of white space\<close>
  "clean_cells cells = map (\<lambda>x. remove_ws (upper (strip x))) (dropna cells)"

fun first_partial :: "string \<Rightarrow> (string \<times> string) list \<Rightarrow> string option" where
  \<comment> \<open>the loop over \<^verbatim>\<open>mapping.items()\<close> looking for a partial match\<close>
  "first_partial target [] = None"
| "first_partial target ((k, orig) # items) =
     (if py_in target k \<or> py_in k target then Some orig else first_partial target items)"

subsection \<open>test.py: \<^verbatim>\<open>load_excel_column\<close>\<close>

definition normalize_text :: "string \<Rightarrow> string" where
  \<comment> \<open>\<^verbatim>\<open>_normalize\<close>\<close>
  "normalize_text s = lower (strip (remove_ws s))"

definition resolve_column :: "dataframe \<Rightarrow> string \<Rightarrow> py_error + string" where
  \<comment> \<open>\<^verbatim>\<open>_resolve_column\<close>\<close>
  "resolve_column df target =
     (let target_norm = normalize_text target;
          mapping = foldl (\<lambda>m c. dict_set m (normalize_text c) c) [] (columns df)
      in case map_of mapping target_norm of
           Some c \<Rightarrow> Inr c
         | None \<Rightarrow> (case first_partial target_norm mapping of
                       Some orig \<Rightarrow> Inr orig
                     | None \<Rightarrow> Inl (KeyError_columns (columns df))))"

definition extract_from_df :: "dataframe \<Rightarrow> string \<Rightarrow> py_error + string list" where
  \<comment> \<open>\<^verbatim>\<open>_extract_from_df\<close>\<close>
  "extract_from_df df column =
     (case resolve_column df column of
        Inl e \<Rightarrow> Inl e
      | Inr col \<Rightarrow> (case map_of df col of
                       None \<Rightarrow> Inl KeyError
                     | Some cells \<Rightarrow> Inr (clean_cells cells)))"

definition is_KeyError :: "py_error \<Rightarrow> bool" where
  "is_KeyError e = (case e of
       KeyError \<Rightarrow> True | KeyError_columns _ \<Rightarrow> True | KeyError_sheets _ \<Rightarrow> True | _ \<Rightarrow> False)"

fun search_sheets ::
  "workbook \<Rightarrow> string \<Rightarrow> (string \<times> string list) list \<Rightarrow> py_error + string list" where
  \<comment> \<open>the loop over all sheets; \<open>tried\<close> collects the headers of the sheets that failed\<close>
  "search_sheets [] column tried = Inl (KeyError_sheets tried)"
| "search_sheets ((name, df) # sheets) column tried =
     (case extract_from_df df column of
        Inr r \<Rightarrow> Inr r
      | Inl e \<Rightarrow> if is_KeyError e then search_sheets sheets column (dict_set tried name (columns df))
                 else Inl e)"

definition load_excel_column :: "workbook \<Rightarrow> string \<Rightarrow> sheet_sel option \<Rightarrow> py_error + string list" where
  "load_excel_column wb column sheet = (case sheet of
       None \<Rightarrow> search_sheets wb column []
     | Some sel \<Rightarrow> (case read_sheet wb sel of Inl e \<Rightarrow> Inl e | Inr df \<Rightarrow> extract_from_df df column))"

subsection \<open>test2.py: \<^verbatim>\<open>read_excel_column\<close>\<close>

definition normalize_colnames :: "string list \<Rightarrow> (string \<times> string) list" where
  \<comment> \<open>\<^verbatim>\<open>_normalize_colnames\<close>\<close>
  "normalize_colnames cols = foldl (\<lambda>m c. dict_set m (lower (strip (remove_ws c))) c) [] cols"

definition t2_extract :: "string \<Rightarrow> dataframe \<Rightarrow> py_error + string list" where
  \<comment> \<open>\<^verbatim>\<open>_extract\<close>, with the \<open>wanted_key\<close> of the enclosing function\<close>
  "t2_extract wanted_key df =
     (let mapping = normalize_colnames (columns df)
      in case (case map_of mapping wanted_key of
                 None \<Rightarrow> (case first_partial wanted_key mapping of
                             Some orig \<Rightarrow> Inr orig
                           | None \<Rightarrow> Inl KeyError)
               | Some c \<Rightarrow> Inr c) of
           Inl e \<Rightarrow> Inl e
         | Inr colname \<Rightarrow> (case map_of df colname of
                              None \<Rightarrow> Inl KeyError
                            | Some cells \<Rightarrow> Inr (clean_cells cells)))"

fun t2_search_sheets ::
  "workbook \<Rightarrow> string \<Rightarrow> (string \<times> string list) list \<Rightarrow> py_error + string list" where
  \<comment> \<open>the loop over \<open>all_sheets\<close>; every exception of the extraction is caught\<close>
  "t2_search_sheets [] wanted_key tried = Inl (SystemExit_sheets tried)"
| "t2_search_sheets ((name, df) # sheets) wanted_key tried =
     (case t2_extract wanted_key df of
        Inr r \<Rightarrow> Inr r
      | Inl _ \<Rightarrow> t2_search_sheets sheets wanted_key (dict_set tried name (columns df)))"

definition read_excel_column :: "workbook \<Rightarrow> string \<Rightarrow> sheet_sel option \<Rightarrow> py_error + string list" where
  "read_excel_column wb wanted_col sheet =
     (let wanted_key = lower (strip (remove_ws wanted_col))
      in case sheet of
           Some sel \<Rightarrow> (case read_sheet wb sel of Inl e \<Rightarrow> Inl e | Inr df \<Rightarrow> t2_extract wanted_key df)
         | None \<Rightarrow>
             (case (case read_sheet wb (SheetIndex 0) of
                      Inl e \<Rightarrow> Inl e
                    | Inr df \<Rightarrow> t2_extract wanted_key df) of
                Inr r \<Rightarrow> Inr r
              | Inl _ \<Rightarrow> t2_search_sheets wb wanted_key []))"

section \<open>Reconciliation (\<^verbatim>\<open>main\<close> of test.py and of test2.py)\<close>

fun not_in_set :: "string set \<Rightarrow> string list \<Rightarrow> string list" where
  \<comment> \<open>\<^verbatim>\<open>[g for g in var2 if g not in set1]\<close>\<close>
  "not_in_set set1 [] = []"
| "not_in_set set1 (g # var2) = (if g \<notin> set1 then g # not_in_set set1 var2 else not_in_set set1 var2)"


subsection \<open>test.py: \<^verbatim>\<open>main\<close>\<close>

text \<open>
  The arguments of a run, with the rows of the table and the two workbooks standing for
  the files the paths name. The result is the tuple the source calls
  \<^verbatim>\<open>var1, var2, var3, NGCI, NSAI\<close>.
\<close>

record args =
  table :: "row list"
  mnc_mode :: string
  lac_width :: int
  ci_width :: int
  gci_xlsx :: workbook
  gci_column :: string
  gci_sheet :: "string option"
  sai_xlsx :: workbook
  sai_column :: string
  sai_sheet :: "string option"

type_synonym report = "string list \<times> string list \<times> string list \<times> string list \<times> string list"

definition main :: "args \<Rightarrow> py_error + report" where
  "main a =
     (case load_access_compound_ids (table a) (mnc_mode a) (lac_width a) (ci_width a) of
        Inl e \<Rightarrow> Inl e
      | Inr access_ids \<Rightarrow>
     (let var1 = map upper access_ids
      in case load_excel_column (gci_xlsx a) (gci_column a) (map_option SheetName (gci_sheet a)) of
        Inl e \<Rightarrow> Inl e
      | Inr var2 \<Rightarrow>
     (case load_excel_column (sai_xlsx a) (sai_column a) (map_option SheetName (sai_sheet a)) of
        Inl e \<Rightarrow> Inl e
      | Inr var3 \<Rightarrow>
          (let set1 = set var1
           in Inr (var1, var2, var3, not_in_set set1 var2, not_in_set set1 var3)))))"

subsection \<open>test2.py: \<^verbatim>\<open>main\<close>\<close>

definition t2_main :: "settings \<Rightarrow> row list \<Rightarrow> workbook \<Rightarrow> workbook \<Rightarrow> py_error + report" where
  \<comment> \<open>the rows of \<open>ACCESS_TABLE\<close> and the workbooks \<open>GCI_XLSX\<close> and \<open>SAI_XLSX\<close> are given\<close>
  "t2_main cfg rows gci sai =
     (case fetch_access_ids cfg rows of
        Inl e \<Rightarrow> Inl e
      | Inr var1 \<Rightarrow>
     (case read_excel_column gci (GCI_COLUMN cfg) (GCI_SHEET cfg) of
        Inl e \<Rightarrow> Inl e
      | Inr var2 \<Rightarrow>
     (case read_excel_column sai (SAI_COLUMN cfg) (SAI_SHEET cfg) of
        Inl e \<Rightarrow> Inl e
      | Inr var3 \<Rightarrow>
          (let s1 = set var1
           in Inr (var1, var2, var3, not_in_set s1 var2, not_in_set s1 var3)))))"

section \<open>The combined column of parse\_excel\_access.py\<close>

text \<open>
  This script takes integer columns. It pads MCC and MNC to fixed widths, renders LAC and
  CI in hexadecimal, joins the four parts, and sets the result beside the spreadsheet
  column row by row; it compares nothing.
\<close>

definition dec_to_hex_str :: "int \<Rightarrow> int option \<Rightarrow> string" where
  "dec_to_hex_str v width =
     (let hex_str = (if v < 0 then CHR ''-'' # hex_digits (nat (- v)) else hex_digits (nat v))
      in case width of None \<Rightarrow> hex_str | Some w \<Rightarrow> zfill w hex_str)"

definition combined :: "int \<Rightarrow> int \<Rightarrow> int \<Rightarrow> int \<Rightarrow> int option \<Rightarrow> int option \<Rightarrow> int \<Rightarrow> int \<Rightarrow> string" where
  \<comment> \<open>the column \<^verbatim>\<open>combined\<close> of one row\<close>
  "combined mcc mnc lac ci lac_w ci_w mcc_w mnc_w =
     zfill mcc_w (str_of_int mcc) @ zfill mnc_w (str_of_int mnc)
       @ dec_to_hex_str lac lac_w @ dec_to_hex_str ci ci_w"

definition combine_dataframes ::
  "cell list \<Rightarrow> (int \<times> int \<times> int \<times> int) list \<Rightarrow> int option \<Rightarrow> int option \<Rightarrow> int \<Rightarrow> int
     \<Rightarrow> (cell \<times> (int \<times> int \<times> int \<times> int) \<times> string) list" where
  \<comment> \<open>each output row: the spreadsheet cell, the table row and its combined text\<close>
  "combine_dataframes excel_df access_df lac_w ci_w mcc_w mnc_w =
     (let rows = map (\<lambda>(mcc, mnc, lac, ci). ((mcc, mnc, lac, ci), combined mcc mnc lac ci lac_w ci_w mcc_w mnc_w))
                     access_df;
          min_len = min (length excel_df) (length rows)
      in zip (take min_len excel_df) (take min_len rows))"



section \<open>Reading an identifier back\<close>

text \<open>Notions used only to state the properties below.\<close>

definition is_upper_hex :: "char \<Rightarrow> bool" where
  \<comment> \<open>one of \<^verbatim>\<open>0123456789ABCDEF\<close>\<close>
  "is_upper_hex c = (let n = (of_char c :: nat) in (48 \<le> n \<and> n \<le> 57) \<or> (65 \<le> n \<and> n \<le> 70))"

definition hex_val :: "string \<Rightarrow> nat" where
  \<comment> \<open>the number an upper-case hexadecimal numeral denotes\<close>
  "hex_val s = foldl (\<lambda>a c. 16 * a + (let n = (of_char c :: nat) in if n \<le> 57 then n - 48 else n - 55)) 0 s"

definition sign_text :: "int \<Rightarrow> string" where
  "sign_text v = (if v < 0 then [CHR 0x2D] else [])"

definition reads_as_number :: "pyval \<Rightarrow> bool" where
  \<comment> \<open>the value is an integer or a finite float, or text that \<^verbatim>\<open>int\<close> reads, or text that
      \<^verbatim>\<open>float\<close> reads as a finite number\<close>
  "reads_as_number v = (case py_int v of
       Inr _ \<Rightarrow> True
     | Inl _ \<Rightarrow> (case py_float v of Inr (FFin _) \<Rightarrow> True | Inr FNegZero \<Rightarrow> True | _ \<Rightarrow> False))"

definition reads_as_number_comma :: "pyval \<Rightarrow> bool" where
  \<comment> \<open>the same, with a comma in the text taken for the decimal point\<close>
  "reads_as_number_comma v = (case py_int v of
       Inr _ \<Rightarrow> True
     | Inl _ \<Rightarrow> (case py_float (PStr (replace_comma (py_str v))) of
                   Inr (FFin _) \<Rightarrow> True | Inr FNegZero \<Rightarrow> True | _ \<Rightarrow> False))"

definition is_infinite :: "pyval \<Rightarrow> bool" where
  "is_infinite v = (case v of PFloat (FInf _) \<Rightarrow> True | _ \<Rightarrow> False)"

definition is_blank :: "pyval \<Rightarrow> bool" where
  \<comment> \<open>text of white space only\<close>
  "is_blank v = (case v of PStr s \<Rightarrow> strip s = [] | _ \<Rightarrow> False)"

definition same_reading :: "pyval \<Rightarrow> bool" where
  \<comment> \<open>a LAC or CI field on which the two hex normalizers cannot differ: anything but
      blank text and text with a comma\<close>
  "same_reading v = (case v of PStr s \<Rightarrow> strip s \<noteq> [] \<and> CHR '','' \<notin> set s | _ \<Rightarrow> True)"

definition common_row :: "row \<Rightarrow> bool" where
  \<comment> \<open>MCC an integer or text; MNC absent, an integer or text; LAC and CI as above\<close>
  "common_row r = (case r of (mcc, mnc, lac, ci) \<Rightarrow>
       (case mcc of PInt _ \<Rightarrow> True | PStr _ \<Rightarrow> True | _ \<Rightarrow> False)
     \<and> (case mnc of PFloat f \<Rightarrow> f = FNan | _ \<Rightarrow> True)
     \<and> same_reading lac \<and> same_reading ci)"

definition exact_value :: "pyval \<Rightarrow> bool" where
  \<comment> \<open>a field the data frame of test.py hands over without loss: an integer only if
      binary64 holds it exactly (magnitude at most \<open>2^53\<close>)\<close>
  "exact_value v = (case v of PInt i \<Rightarrow> \<bar>i\<bar> \<le> 9007199254740992 | _ \<Rightarrow> True)"

definition exact_row :: "row \<Rightarrow> bool" where
  "exact_row r = (case r of (mcc, mnc, lac, ci) \<Rightarrow>
       exact_value mcc \<and> exact_value mnc \<and> exact_value lac \<and> exact_value ci)"

definition same_config :: "args \<Rightarrow> settings \<Rightarrow> bool" where
  \<comment> \<open>the arguments of test.py and the settings of test2.py say the same\<close>
  "same_config a cfg =
     (mnc_mode a = MNC_MODE cfg \<and> lac_width a = LAC_HEX_WIDTH cfg \<and> ci_width a = CI_HEX_WIDTH cfg
      \<and> gci_column a = GCI_COLUMN cfg \<and> map_option SheetName (gci_sheet a) = GCI_SHEET cfg
      \<and> sai_column a = SAI_COLUMN cfg \<and> map_option SheetName (sai_sheet a) = SAI_SHEET cfg)"

text \<open>A run on one table row and two one-column workbooks.\<close>

definition example_args :: args where
  "example_args =
     \<lparr>table = [(PInt 250, PInt 1, PInt 10, PInt 20)],
      mnc_mode = ''auto'', lac_width = 4, ci_width = 4,
      gci_xlsx = [(''Sheet1'', [(''GCI'', [Some ''25001000A0014'', Some ''ABC123''])])],
      gci_column = ''GCI'', gci_sheet = None,
      sai_xlsx = [(''Sheet1'', [(''Notes'', [])]), (''Sheet2'', [(''SAI'', [Some ''abc 123'', None])])],
      sai_column = ''SAI'', sai_sheet = None\<rparr>"

definition example_report :: report where
  "example_report =
     ([''25001000A0014''], [''25001000A0014'', ''ABC123''], [''ABC123''], [''ABC123''], [''ABC123''])"

section \<open>Properties\<close>

subsection \<open>Characters and digit strings\<close>

lemma is_space_upper_char [simp]: "is_space (upper_char c) = is_space c"
  by (auto simp: is_space_def upper_char_def Let_def)

lemma upper_char_idem [simp]: "upper_char (upper_char c) = upper_char c"
  by (auto simp: upper_char_def Let_def)

lemma dec_char_props:
  assumes "d < 10"
  shows "\<not> is_space (dec_char d)" "upper_char (dec_char d) = dec_char d"
    "is_digit (dec_char d)" "digit_val (dec_char d) = d"
  using assms
  by (auto simp: is_space_def upper_char_def is_digit_def digit_val_def dec_char_def Let_def)

lemma hex_char_props:
  assumes "d < 16"
  shows "\<not> is_space (hex_char d)" "upper_char (hex_char d) = hex_char d"
  using assms by (auto simp: is_space_def upper_char_def hex_char_def Let_def)

lemma sign_char_props [simp]:
  "\<not> is_space CHR ''-''" "upper_char CHR ''-'' = CHR ''-''"
  "\<not> is_space CHR ''0''" "upper_char CHR ''0'' = CHR ''0''"
  "is_digit CHR ''0''" "digit_val CHR ''0'' = 0"
  by (auto simp: is_space_def upper_char_def is_digit_def digit_val_def Let_def)

text \<open>
  \<^verbatim>\<open>int\<close> and \<^verbatim>\<open>float\<close> skip the blank, TAB, LF, VT, FF and CR around a numeral, and refuse
  the separators 0x1C..0x1F, which \<^verbatim>\<open>str.strip\<close> removes.
\<close>

lemma numeral_with_separator:
  "py_int_of_str [CHR ''1'', CHR ''2'', CHR 0x1F] = None"
  "py_float_of_str [CHR 0x1C, CHR ''1'', CHR ''2''] = None"
  "py_int_of_str [CHR 0x20, CHR ''1'', CHR ''2'', CHR 0x09, CHR 0x0A] = Some 12"
  "strip [CHR 0x1C, CHR ''1'', CHR ''2'', CHR 0x1F] = ''12''"
  "to_hex (PStr [CHR ''1'', CHR ''2'', CHR 0x1F]) 4 = Inl ValueError"
  by code_simp+

subsection \<open>The reconciliation diff\<close>

lemma not_in_set_filter: "not_in_set S xs = filter (\<lambda>g. g \<notin> S) xs"
  by (induction xs) auto

lemma count_list_filter: "count_list (filter P xs) x = (if P x then count_list xs x else 0)"
  by (induction xs) auto

text \<open>
  C2. For every canonical identifier set and every candidate list, the diff computed in
  \<^verbatim>\<open>main\<close> keeps exactly the candidates that are not members of the canonical set, in
  their original order and with their repetitions: it is the candidate list filtered by
  non-membership, a subsequence of the candidate list, and each candidate outside the
  canonical set occurs in it as often as among the candidates. For the canonical set
  {"A","B"} and the candidates ["A","C","C","B"] the result is ["C","C"].
\<close>

theorem reconciliation_diff:
  "not_in_set canonical candidates = filter (\<lambda>g. g \<notin> canonical) candidates
   \<and> subseq (not_in_set canonical candidates) candidates
   \<and> set (not_in_set canonical candidates) = set candidates - canonical
   \<and> (\<forall>x. count_list (not_in_set canonical candidates) x
            = (if x \<in> canonical then 0 else count_list candidates x))
   \<and> not_in_set {''A'', ''B''} [''A'', ''C'', ''C'', ''B''] = [''C'', ''C'']"
  by (auto simp: not_in_set_filter count_list_filter)

theorem reconciliation_diff_witness:
  "not_in_set {''A'', ''B''} [''A'', ''C'', ''C'', ''B'']
     = filter (\<lambda>g. g \<notin> {''A'', ''B''}) [''A'', ''C'', ''C'', ''B'']
   \<and> count_list (not_in_set {''A'', ''B''} [''A'', ''C'', ''C'', ''B'']) ''C'' = 2"
  using reconciliation_diff [of "{''A'', ''B''}" "[''A'', ''C'', ''C'', ''B'']"] by simp


lemma dropWhile_none: "\<forall>c\<in>set s. \<not> P c \<Longrightarrow> dropWhile P s = s"
  by (cases s) auto

lemma strip_no_space: "\<forall>c\<in>set s. \<not> is_space c \<Longrightarrow> strip s = s"
  unfolding strip_def by (simp add: dropWhile_none)

lemma hex_digits_chars: "set (hex_digits n) \<subseteq> hex_char ` {..<16}"
proof (induction n rule: hex_digits.induct)
  case (1 n)
  show ?case
  proof (cases "n < 16")
    case True
    then show ?thesis by (subst hex_digits.simps) auto
  next
    case False
    have "n mod 16 < 16" by simp
    with 1 False show ?thesis by (subst hex_digits.simps) auto
  qed
qed

lemma dec_digits_chars: "set (dec_digits n) \<subseteq> dec_char ` {..<10}"
proof (induction n rule: dec_digits.induct)
  case (1 n)
  show ?case
  proof (cases "n < 10")
    case True
    then show ?thesis by (subst dec_digits.simps) auto
  next
    case False
    have "n mod 10 < 10" by simp
    with 1 False show ?thesis by (subst dec_digits.simps) auto
  qed
qed

lemma hex_digits_nonempty [simp]: "hex_digits n \<noteq> []"
  by (subst hex_digits.simps) simp

lemma dec_digits_nonempty [simp]: "dec_digits n \<noteq> []"
  by (subst dec_digits.simps) simp

lemma dec_digits_no_space: "c \<in> set (dec_digits n) \<Longrightarrow> \<not> is_space c"
  using dec_digits_chars [of n] dec_char_props(1) by auto

lemma dec_digits_upper: "upper (dec_digits n) = dec_digits n"
  unfolding upper_def using dec_digits_chars [of n] dec_char_props(2)
  by (intro map_idI) auto

lemma dec_digits_all_digits: "c \<in> set (dec_digits n) \<Longrightarrow> is_digit c"
  using dec_digits_chars [of n] dec_char_props(3) by auto

lemma hex_digits_no_space: "c \<in> set (hex_digits n) \<Longrightarrow> \<not> is_space c"
  using hex_digits_chars [of n] hex_char_props(1) by auto

lemma hex_digits_upper: "upper (hex_digits n) = hex_digits n"
  unfolding upper_def using hex_digits_chars [of n] hex_char_props(2)
  by (intro map_idI) auto

lemma str_of_int_no_space: "c \<in> set (str_of_int i) \<Longrightarrow> \<not> is_space c"
  by (auto simp: str_of_int_def dec_digits_no_space split: if_splits)

lemma str_of_int_nonempty [simp]: "str_of_int i \<noteq> []"
  by (simp add: str_of_int_def)

lemma strip_str_of_int [simp]: "strip (str_of_int i) = str_of_int i"
  by (simp add: strip_no_space str_of_int_no_space)


subsection \<open>Hex normalization of integers\<close>

lemma hex_digits_is_upper_hex: "c \<in> set (hex_digits n) \<Longrightarrow> is_upper_hex c"
  using hex_digits_chars [of n] by (auto simp: is_upper_hex_def hex_char_def Let_def)

lemma hex_val_snoc: "hex_val (s @ [hex_char d]) = 16 * hex_val s + (if d < 16 then d else hex_val [hex_char d])"
  by (auto simp: hex_val_def hex_char_def Let_def)

lemma hex_val_hex_digits: "hex_val (hex_digits n) = n"
proof (induction n rule: hex_digits.induct)
  case (1 n)
  show ?case
  proof (cases "n < 16")
    case True
    then show ?thesis
      by (subst hex_digits.simps) (auto simp: hex_val_def hex_char_def Let_def)
  next
    case False
    have "n mod 16 < 16" by simp
    with 1 False show ?thesis
      by (subst hex_digits.simps) (simp add: hex_val_snoc)
  qed
qed

lemma format_zero_shape:
  "format_zero ds w neg =
     (if neg then ''-'' else []) @ replicate (nat w - length ((if neg then ''-'' else []) @ ds)) CHR ''0'' @ ds"
  by (simp add: format_zero_def)

lemma length_format_zero:
  "length (format_zero ds w neg) = max (nat w) (length ((if neg then ''-'' else []) @ ds))"
  by (auto simp: format_zero_def)

lemma suffix_format_zero: "suffix ds (format_zero ds w neg)"
  by (auto simp: format_zero_def suffix_def)

lemma to_hex_int: "0 \<le> width \<Longrightarrow> to_hex (PInt v) width = Inr (format_X width v)"
  by (simp add: to_hex_def isna_def py_int_def format_hex_def)

lemma t2_to_hex_int: "0 \<le> width \<Longrightarrow> t2_to_hex (PInt v) width = Inr (format_X width v)"
  by (simp add: t2_to_hex_def isna_def py_int_def py_str_def format_hex_def)




subsection \<open>Evaluating digit strings\<close>

lemma hex_char_values:
  "hex_char 0 = CHR ''0''" "hex_char 1 = CHR ''1''" "hex_char 2 = CHR ''2''" "hex_char 3 = CHR ''3''"
  "hex_char 4 = CHR ''4''" "hex_char 5 = CHR ''5''" "hex_char 6 = CHR ''6''" "hex_char 7 = CHR ''7''"
  "hex_char 8 = CHR ''8''" "hex_char 9 = CHR ''9''" "hex_char 10 = CHR ''A''" "hex_char 11 = CHR ''B''"
  "hex_char 12 = CHR ''C''" "hex_char 13 = CHR ''D''" "hex_char 14 = CHR ''E''" "hex_char 15 = CHR ''F''"
  "hex_char (Suc 0) = CHR ''1''"
  by code_simp+

lemma dec_char_values:
  "dec_char 0 = CHR ''0''" "dec_char 1 = CHR ''1''" "dec_char 2 = CHR ''2''" "dec_char 3 = CHR ''3''"
  "dec_char 4 = CHR ''4''" "dec_char 5 = CHR ''5''" "dec_char 6 = CHR ''6''" "dec_char 7 = CHR ''7''"
  "dec_char 8 = CHR ''8''" "dec_char 9 = CHR ''9''" "dec_char (Suc 0) = CHR ''1''"
  by code_simp+

lemma replicate_numeral: "replicate (numeral k) x = x # replicate (pred_numeral k) x"
  by (simp add: numeral_eq_Suc)

lemmas digit_eval =
  format_X_def format_d_def format_zero_def str_of_int_def hex_digits.simps dec_digits.simps
  hex_char_values dec_char_values replicate_numeral

lemma format_X_examples: "format_X 4 10 = ''000A''" "format_X 4 65536 = ''10000''"
  by (simp_all add: digit_eval)

text \<open>
  C4. For every integer value and every width (a non-negative number of characters), both
  hex normalizers return the value in upper-case hexadecimal, zeros inserted on the left
  (after the sign of a negative value) up to the width. Nothing is cut off: the digits of
  the value are a suffix of the result, they are upper-case hexadecimal digits that read
  back as the value, and the result is as long as the longer of the width and the plain
  numeral. In particular 10 at width 4 gives "000A" and 65536 at width 4 gives "10000".
\<close>

theorem hex_normalization:
  "0 \<le> width \<Longrightarrow>
     to_hex (PInt v) width = Inr (format_X width v)
   \<and> t2_to_hex (PInt v) width = Inr (format_X width v)
   \<and> format_X width v
       = sign_text v
         @ replicate (nat width - length (sign_text v @ hex_digits (nat \<bar>v\<bar>))) CHR ''0''
         @ hex_digits (nat \<bar>v\<bar>)
   \<and> length (format_X width v) = max (nat width) (length (sign_text v @ hex_digits (nat \<bar>v\<bar>)))
   \<and> suffix (hex_digits (nat \<bar>v\<bar>)) (format_X width v)
   \<and> list_all is_upper_hex (hex_digits (nat \<bar>v\<bar>))
   \<and> hex_val (hex_digits (nat \<bar>v\<bar>)) = nat \<bar>v\<bar>
   \<and> to_hex (PInt 10) 4 = Inr ''000A'' \<and> to_hex (PInt 65536) 4 = Inr ''10000''
   \<and> t2_to_hex (PInt 10) 4 = Inr ''000A'' \<and> t2_to_hex (PInt 65536) 4 = Inr ''10000''"
proof (intro conjI)
  assume w: "0 \<le> width"
  show "to_hex (PInt v) width = Inr (format_X width v)" using w by (rule to_hex_int)
  show "t2_to_hex (PInt v) width = Inr (format_X width v)" using w by (rule t2_to_hex_int)
  show "format_X width v
       = sign_text v
         @ replicate (nat width - length (sign_text v @ hex_digits (nat \<bar>v\<bar>))) CHR ''0''
         @ hex_digits (nat \<bar>v\<bar>)"
    unfolding format_X_def sign_text_def format_zero_def by simp
  show "length (format_X width v) = max (nat width) (length (sign_text v @ hex_digits (nat \<bar>v\<bar>)))"
    unfolding format_X_def sign_text_def length_format_zero by simp
  show "suffix (hex_digits (nat \<bar>v\<bar>)) (format_X width v)"
    unfolding format_X_def by (rule suffix_format_zero)
  show "list_all is_upper_hex (hex_digits (nat \<bar>v\<bar>))"
    by (simp add: list_all_iff hex_digits_is_upper_hex)
  show "hex_val (hex_digits (nat \<bar>v\<bar>)) = nat \<bar>v\<bar>" by (rule hex_val_hex_digits)
  show "to_hex (PInt 10) 4 = Inr ''000A''" by (simp add: to_hex_int format_X_examples)
  show "to_hex (PInt 65536) 4 = Inr ''10000''" by (simp add: to_hex_int format_X_examples)
  show "t2_to_hex (PInt 10) 4 = Inr ''000A''" by (simp add: t2_to_hex_int format_X_examples)
  show "t2_to_hex (PInt 65536) 4 = Inr ''10000''" by (simp add: t2_to_hex_int format_X_examples)
qed

theorem hex_normalization_witness:
  "to_hex (PInt 255) 4 = Inr ''00FF'' \<and> t2_to_hex (PInt 255) 4 = Inr ''00FF''
   \<and> length (format_X 4 255) = 4 \<and> hex_val (hex_digits 255) = 255"
proof -
  have "format_X 4 255 = ''00FF''" "hex_digits 255 = ''FF''" "sign_text 255 = []"
    by (simp_all add: digit_eval sign_text_def)
  then show ?thesis using hex_normalization [of 4 255] by simp
qed


subsection \<open>Padding and decimal numerals\<close>

lemma zfill_wide [simp]: "w \<le> int (length s) \<Longrightarrow> zfill w s = s"
  by (cases s) auto

lemma length_zfill: "length (zfill w s) = max (nat w) (length s)"
  by (cases s) auto

lemma upper_append [simp]: "upper (a @ b) = upper a @ upper b"
  by (simp add: upper_def)

lemma length_upper [simp]: "length (upper s) = length s"
  by (simp add: upper_def)

lemma upper_idem [simp]: "upper (upper s) = upper s"
  by (simp add: upper_def)

lemma upper_replicate_zero [simp]: "upper (replicate k CHR ''0'') = replicate k CHR ''0''"
  by (simp add: upper_def)

lemma dec_digits_small: "n < 10 \<Longrightarrow> dec_digits n = [dec_char n]"
  by (subst dec_digits.simps) simp

lemma dec_digits_step: "10 \<le> n \<Longrightarrow> dec_digits n = dec_digits (n div 10) @ [dec_char (n mod 10)]"
  by (subst dec_digits.simps) simp

lemma length_dec_digits_2: "10 \<le> n \<Longrightarrow> n < 100 \<Longrightarrow> length (dec_digits n) = 2"
  by (simp add: dec_digits_step dec_digits_small)

lemma length_dec_digits_3: "100 \<le> n \<Longrightarrow> n < 1000 \<Longrightarrow> length (dec_digits n) = 3"
  by (simp add: dec_digits_step [of n] length_dec_digits_2)

lemma length_dec_digits_ge_4: "1000 \<le> n \<Longrightarrow> 4 \<le> length (dec_digits n)"
proof -
  assume n: "1000 \<le> n"
  have a: "100 \<le> n div 10" using n by simp
  have b: "10 \<le> n div 10 div 10" using a by simp
  have c: "1 \<le> n div 10 div 10 div 10" using b by simp
  show ?thesis
    using n a b by (simp add: dec_digits_step [of n] dec_digits_step [of "n div 10"]
        dec_digits_step [of "n div 10 div 10"] Suc_le_eq)
qed

lemma digits_val_snoc:
  "d < 10 \<Longrightarrow> digits_val (s @ [dec_char d]) = 10 * digits_val s + d"
  by (simp add: digits_val_def dec_char_props)

lemma digits_val_dec_digits: "digits_val (dec_digits n) = n"
proof (induction n rule: dec_digits.induct)
  case (1 n)
  show ?case
  proof (cases "n < 10")
    case True
    then show ?thesis
      using digits_val_snoc [of n "[]"] by (simp add: dec_digits_small digits_val_def)
  next
    case False
    have "n mod 10 < 10" by simp
    with 1 False show ?thesis by (simp add: dec_digits_step digits_val_snoc)
  qed
qed

lemma digits_val_zeros: "digits_val (replicate k CHR ''0'' @ s) = digits_val s"
  by (induction k) (simp_all add: digits_val_def)

lemma format_d_nonneg:
  "0 \<le> v \<Longrightarrow> format_d w v = replicate (nat w - length (dec_digits (nat v))) CHR ''0'' @ dec_digits (nat v)"
  by (simp add: format_d_def format_zero_def)

lemma format_d_digits: "0 \<le> v \<Longrightarrow> list_all is_digit (format_d w v)"
  by (auto simp: format_d_nonneg list_all_iff dec_digits_all_digits)

lemma format_d_val: "0 \<le> v \<Longrightarrow> digits_val (format_d w v) = nat v"
  by (simp add: format_d_nonneg digits_val_zeros digits_val_dec_digits)

lemma length_format_d: "length (format_d w v) = max (nat w) (length (sign_text v @ dec_digits (nat \<bar>v\<bar>)))"
  by (auto simp: format_d_def format_zero_def sign_text_def)

lemma length_format_d_2: "0 \<le> v \<Longrightarrow> v < 100 \<Longrightarrow> length (format_d 2 v) = 2"
proof -
  assume v: "0 \<le> v" "v < 100"
  consider "nat v < 10" | "10 \<le> nat v" "nat v < 100" using v by linarith
  then show ?thesis
    by cases (simp_all add: format_d_nonneg v dec_digits_small length_dec_digits_2)
qed

lemma length_format_d_3: "100 \<le> v \<Longrightarrow> v < 1000 \<Longrightarrow> length (format_d 3 v) = 3"
  by (simp add: format_d_nonneg length_dec_digits_3)

lemma format_d_3_large: "1000 \<le> v \<Longrightarrow> format_d 3 v = dec_digits (nat v)"
proof -
  assume v: "1000 \<le> v"
  then have "1000 \<le> nat v" by linarith
  then have "4 \<le> length (dec_digits (nat v))" by (rule length_dec_digits_ge_4)
  then show ?thesis using v by (simp add: format_d_nonneg)
qed

lemma upper_sign_zeros [simp]: "upper (CHR ''-'' # s) = CHR ''-'' # upper s"
  by (simp add: upper_def)

lemma upper_format_d [simp]: "upper (format_d w v) = format_d w v"
  by (simp add: format_d_def format_zero_def dec_digits_upper)

lemma upper_format_X [simp]: "upper (format_X w v) = format_X w v"
  by (simp add: format_X_def format_zero_def hex_digits_upper)


subsection \<open>The parts of an identifier\<close>

lemma build_id_parts:
  assumes "(if mw \<noteq> 0 then norm_digits mcc (Some mw) (Some mw) else norm_digits mcc None None) = Inr mcc_s"
    and "norm_digits mnc None None = Inr raw"
    and "to_hex lac lw = Inr lh" and "to_hex ci cw = Inr ch"
  shows "build_id mcc mnc lac ci mw mode lw cw = Inr (upper (mcc_s @ mnc_str mode raw @ lh @ ch))"
  using assms by (simp add: build_id_def)

lemma t2_build_id_parts:
  assumes "t2_to_hex lac lw = Inr lh" and "t2_to_hex ci cw = Inr ch"
  shows "t2_build_id mcc mnc lac ci mode lw cw
           = Inr (upper (zfill 3 (t2_digits mcc) @ t2_mnc_s mode (t2_digits mnc) @ lh @ ch))"
  using assms by (simp add: t2_build_id_def)

lemma t2_mnc_s_eq: "t2_mnc_s mode raw = mnc_str mode raw"
  by (auto simp: t2_mnc_s_def mnc_str_def split: option.splits)

lemma mnc_str_fixed:
  "mnc_str ''2'' raw = zfill 2 raw" "mnc_str ''3'' raw = zfill 3 raw"
  by (simp_all add: mnc_str_def)


lemma upper_digits: "list_all is_digit s \<Longrightarrow> upper s = s"
  unfolding upper_def by (intro map_idI) (auto simp: list_all_iff is_digit_def upper_char_def Let_def)

lemma length_mnc_str_fixed: "2 \<le> length (mnc_str ''2'' s)" "3 \<le> length (mnc_str ''3'' s)"
  by (simp_all add: mnc_str_fixed length_zfill)

subsection \<open>The MNC segment under the fixed modes\<close>

lemma fixed_mode_example:
  "build_id (PInt 250) (PInt 1234) (PInt 10) (PInt 20) 3 ''2'' 4 4 = Inr ''2501234000A0014''"
  "t2_build_id (PInt 250) (PInt 1234) (PInt 10) (PInt 20) ''2'' 4 4 = Inr ''2501234000A0014''"
  by code_simp+

text \<open>
  C10. Under the modes "2" and "3" the builder never truncates: when the normalized digit
  string of the MNC has more than 2 (respectively 3) characters, the MNC segment is that
  string in full, in both variants, and the identifier is the upper-cased concatenation
  of the MCC part, that string and the two hex parts (a string of digits is left as it is
  by the upper-casing). The modes only guarantee a minimum: the segment has at least 2
  (respectively 3) characters. So an identifier can be longer than the configured
  widths add up to: MCC 250, MNC 1234, LAC 10, CI 20 under mode "2" and hex widths 4 give
  "2501234000A0014", 15 characters against 3 + 2 + 4 + 4.
\<close>

theorem fixed_mode_never_truncates:
  "(mode = ''2'' \<and> 2 < length raw) \<or> (mode = ''3'' \<and> 3 < length raw) \<Longrightarrow>
     mnc_str mode raw = raw
   \<and> t2_mnc_s mode raw = raw
   \<and> 2 \<le> length (mnc_str ''2'' s) \<and> 3 \<le> length (mnc_str ''3'' s)
   \<and> 2 \<le> length (t2_mnc_s ''2'' s) \<and> 3 \<le> length (t2_mnc_s ''3'' s)
   \<and> ((if mw \<noteq> 0 then norm_digits mcc (Some mw) (Some mw) else norm_digits mcc None None) = Inr mcc_s
        \<and> norm_digits mnc None None = Inr raw \<and> to_hex lac lw = Inr lh \<and> to_hex ci cw = Inr ch
      \<longrightarrow> build_id mcc mnc lac ci mw mode lw cw = Inr (upper mcc_s @ upper raw @ upper lh @ upper ch))
   \<and> (t2_digits mnc = raw \<and> t2_to_hex lac lw = Inr lh \<and> t2_to_hex ci cw = Inr ch
      \<longrightarrow> t2_build_id mcc mnc lac ci mode lw cw
            = Inr (upper (zfill 3 (t2_digits mcc)) @ upper raw @ upper lh @ upper ch))
   \<and> (list_all is_digit raw \<longrightarrow> upper raw = raw)
   \<and> build_id (PInt 250) (PInt 1234) (PInt 10) (PInt 20) 3 ''2'' 4 4 = Inr ''2501234000A0014''
   \<and> t2_build_id (PInt 250) (PInt 1234) (PInt 10) (PInt 20) ''2'' 4 4 = Inr ''2501234000A0014''
   \<and> 3 + 2 + 4 + 4 < length ''2501234000A0014''"
proof -
  assume m: "(mode = ''2'' \<and> 2 < length raw) \<or> (mode = ''3'' \<and> 3 < length raw)"
  then have seg: "mnc_str mode raw = raw"
    by (auto simp: mnc_str_fixed)
  have "build_id mcc mnc lac ci mw mode lw cw = Inr (upper mcc_s @ upper raw @ upper lh @ upper ch)"
    if "(if mw \<noteq> 0 then norm_digits mcc (Some mw) (Some mw) else norm_digits mcc None None) = Inr mcc_s"
      "norm_digits mnc None None = Inr raw" "to_hex lac lw = Inr lh" "to_hex ci cw = Inr ch"
    using build_id_parts [OF that, of mode] by (simp add: seg)
  moreover have "t2_build_id mcc mnc lac ci mode lw cw
            = Inr (upper (zfill 3 (t2_digits mcc)) @ upper raw @ upper lh @ upper ch)"
    if "t2_digits mnc = raw" "t2_to_hex lac lw = Inr lh" "t2_to_hex ci cw = Inr ch"
    using t2_build_id_parts [OF that(2,3), of mcc mnc mode] that(1) by (simp add: seg t2_mnc_s_eq)
  ultimately show ?thesis
    using seg by (simp add: t2_mnc_s_eq length_mnc_str_fixed upper_digits fixed_mode_example)
qed

theorem fixed_mode_never_truncates_witness:
  "2 < length ''1234'' \<and> mnc_str ''2'' ''1234'' = ''1234'' \<and> t2_mnc_s ''2'' ''1234'' = ''1234''"
  using fixed_mode_never_truncates [of "''2''" "''1234''"] by simp


subsection \<open>The MNC segment under the automatic mode\<close>

lemma mnc_str_auto_parsed:
  "mode \<noteq> ''2'' \<Longrightarrow> mode \<noteq> ''3'' \<Longrightarrow> py_int_of_str raw = Some v \<Longrightarrow>
     mnc_str mode raw = (if v < 100 then format_d 2 v else format_d 3 v)"
  by (auto simp: mnc_str_def)

lemma mnc_str_auto_unparsed:
  "mode \<noteq> ''2'' \<Longrightarrow> mode \<noteq> ''3'' \<Longrightarrow> py_int_of_str raw = None \<Longrightarrow> mnc_str mode raw = raw"
  by (simp add: mnc_str_def)

lemma auto_mode_examples:
  "build_id (PInt 250) (PInt 1) (PInt 10) (PInt 20) 3 ''auto'' 4 4 = Inr ''25001000A0014''"
  "t2_build_id (PInt 250) (PInt 1) (PInt 10) (PInt 20) ''auto'' 4 4 = Inr ''25001000A0014''"
  "mnc_str ''auto'' ''1'' = ''01''" "mnc_str ''auto'' ''120'' = ''120''"
  "t2_mnc_s ''auto'' ''1'' = ''01''" "t2_mnc_s ''auto'' ''120'' = ''120''"
  by code_simp+

text \<open>
  C3, the claim as it stands fails: the format \<^verbatim>\<open>03d\<close> pads, it does not cut. An MNC of
  1000 parses as an integer that is not below 100, and its segment has four digits.
\<close>

theorem auto_mode_three_digits_counterexample:
  "py_int_of_str ''1000'' = Some 1000
   \<and> \<not> (1000 :: int) < 100
   \<and> mnc_str ''auto'' ''1000'' = ''1000''
   \<and> t2_mnc_s ''auto'' ''1000'' = ''1000''
   \<and> length (mnc_str ''auto'' ''1000'') \<noteq> 3
   \<and> build_id (PInt 250) (PInt 1000) (PInt 10) (PInt 20) 3 ''auto'' 4 4 = Inr ''2501000000A0014''
   \<and> t2_build_id (PInt 250) (PInt 1000) (PInt 10) (PInt 20) ''auto'' 4 4 = Inr ''2501000000A0014''"
  by (intro conjI; code_simp)

text \<open>
  C3, amended. Under the automatic mode (any mode other than "2" and "3"), when the
  normalized digit string of the MNC parses as an integer \<open>v\<close>, the MNC segment is \<open>v\<close>
  padded with zeros to two characters if \<open>v < 100\<close> and to three otherwise, in both
  variants, and the final upper-casing leaves it as it is. That is exactly two digits
  denoting \<open>v\<close> for \<open>0 \<le> v < 100\<close>, exactly three for \<open>100 \<le> v < 1000\<close>, and the whole
  decimal numeral, more than three digits, from 1000 on. When the digit string does not
  parse, the segment is the digit string itself, upper-cased with the rest of the
  identifier. So MNC 1 renders as "01", MCC 250, MNC 1, LAC 10, CI 20 at hex widths 4 give
  "25001000A0014", and MNC 120 renders as "120".
\<close>

theorem auto_mode_mnc_segment:
  "mode \<noteq> ''2'' \<Longrightarrow> mode \<noteq> ''3'' \<Longrightarrow>
     (py_int_of_str raw = Some v \<longrightarrow>
          mnc_str mode raw = (if v < 100 then format_d 2 v else format_d 3 v)
        \<and> t2_mnc_s mode raw = (if v < 100 then format_d 2 v else format_d 3 v)
        \<and> upper (mnc_str mode raw) = mnc_str mode raw)
   \<and> (0 \<le> v \<and> v < 100 \<longrightarrow>
          length (format_d 2 v) = 2 \<and> list_all is_digit (format_d 2 v)
        \<and> digits_val (format_d 2 v) = nat v)
   \<and> (100 \<le> v \<and> v < 1000 \<longrightarrow>
          length (format_d 3 v) = 3 \<and> list_all is_digit (format_d 3 v)
        \<and> digits_val (format_d 3 v) = nat v)
   \<and> (1000 \<le> v \<longrightarrow> format_d 3 v = dec_digits (nat v) \<and> 3 < length (format_d 3 v))
   \<and> (py_int_of_str raw = None \<longrightarrow> mnc_str mode raw = raw \<and> t2_mnc_s mode raw = raw)
   \<and> ((if mw \<noteq> 0 then norm_digits mcc (Some mw) (Some mw) else norm_digits mcc None None) = Inr mcc_s
        \<and> norm_digits mnc None None = Inr raw \<and> to_hex lac lw = Inr lh \<and> to_hex ci cw = Inr ch
      \<longrightarrow> build_id mcc mnc lac ci mw mode lw cw
            = Inr (upper mcc_s @ upper (mnc_str mode raw) @ upper lh @ upper ch))
   \<and> (t2_digits mnc = raw \<and> t2_to_hex lac lw = Inr lh \<and> t2_to_hex ci cw = Inr ch
      \<longrightarrow> t2_build_id mcc mnc lac ci mode lw cw
            = Inr (upper (zfill 3 (t2_digits mcc)) @ upper (t2_mnc_s mode raw) @ upper lh @ upper ch))
   \<and> build_id (PInt 250) (PInt 1) (PInt 10) (PInt 20) 3 ''auto'' 4 4 = Inr ''25001000A0014''
   \<and> t2_build_id (PInt 250) (PInt 1) (PInt 10) (PInt 20) ''auto'' 4 4 = Inr ''25001000A0014''
   \<and> mnc_str ''auto'' ''1'' = ''01'' \<and> mnc_str ''auto'' ''120'' = ''120''
   \<and> t2_mnc_s ''auto'' ''1'' = ''01'' \<and> t2_mnc_s ''auto'' ''120'' = ''120''"
proof -
  assume m: "mode \<noteq> ''2''" "mode \<noteq> ''3''"
  have parsed: "mnc_str mode raw = (if v < 100 then format_d 2 v else format_d 3 v)"
    if "py_int_of_str raw = Some v"
    using m that by (rule mnc_str_auto_parsed)
  have up: "upper (mnc_str mode raw) = mnc_str mode raw" if "py_int_of_str raw = Some v"
    using parsed [OF that] by simp
  have unparsed: "mnc_str mode raw = raw" if "py_int_of_str raw = None"
    using m that by (rule mnc_str_auto_unparsed)
  have two: "length (format_d 2 v) = 2 \<and> list_all is_digit (format_d 2 v)
        \<and> digits_val (format_d 2 v) = nat v" if "0 \<le> v \<and> v < 100"
    using that by (simp add: length_format_d_2 format_d_digits format_d_val)
  have three: "length (format_d 3 v) = 3 \<and> list_all is_digit (format_d 3 v)
        \<and> digits_val (format_d 3 v) = nat v" if "100 \<le> v \<and> v < 1000"
    using that by (simp add: length_format_d_3 format_d_digits format_d_val)
  have more: "format_d 3 v = dec_digits (nat v) \<and> 3 < length (format_d 3 v)" if "1000 \<le> v"
  proof -
    have "1000 \<le> nat v" using that by linarith
    then have "4 \<le> length (dec_digits (nat v))" by (rule length_dec_digits_ge_4)
    then show ?thesis using that by (simp add: format_d_3_large)
  qed
  have b1: "build_id mcc mnc lac ci mw mode lw cw
            = Inr (upper mcc_s @ upper (mnc_str mode raw) @ upper lh @ upper ch)"
    if "(if mw \<noteq> 0 then norm_digits mcc (Some mw) (Some mw) else norm_digits mcc None None) = Inr mcc_s"
      "norm_digits mnc None None = Inr raw" "to_hex lac lw = Inr lh" "to_hex ci cw = Inr ch"
    using build_id_parts [OF that, of mode] by simp
  have b2: "t2_build_id mcc mnc lac ci mode lw cw
            = Inr (upper (zfill 3 (t2_digits mcc)) @ upper (t2_mnc_s mode raw) @ upper lh @ upper ch)"
    if "t2_digits mnc = raw" "t2_to_hex lac lw = Inr lh" "t2_to_hex ci cw = Inr ch"
    using t2_build_id_parts [OF that(2,3), of mcc mnc mode] that(1) by simp
  show ?thesis
    apply (intro conjI impI)
    subgoal by (rule parsed)
    subgoal by (simp add: t2_mnc_s_eq parsed)
    subgoal by (rule up)
    subgoal using two by simp
    subgoal using two by simp
    subgoal using two by simp
    subgoal using three by simp
    subgoal using three by simp
    subgoal using three by simp
    subgoal using more by blast
    subgoal using more by blast
    subgoal by (rule unparsed)
    subgoal by (simp add: t2_mnc_s_eq unparsed)
    subgoal by (rule b1) simp_all
    subgoal by (rule b2) simp_all
    by (rule auto_mode_examples)+
qed

theorem auto_mode_mnc_segment_witness:
  "py_int_of_str ''7'' = Some 7 \<and> mnc_str ''auto'' ''7'' = format_d 2 7
   \<and> length (format_d 2 7) = 2 \<and> digits_val (format_d 2 7) = 7
   \<and> py_int_of_str ''ab'' = None \<and> mnc_str ''auto'' ''ab'' = ''ab''"
proof -
  have p: "py_int_of_str ''7'' = Some 7" "py_int_of_str ''ab'' = None" by code_simp+
  have "''auto'' \<noteq> ''2''" "''auto'' \<noteq> ''3''" by simp_all
  from auto_mode_mnc_segment [OF this, of "''7''" 7] auto_mode_mnc_segment [OF this, of "''ab''"] p
  show ?thesis by simp
qed


subsection \<open>Hex normalization of absent, blank and non-integer input\<close>

lemma t2_to_hex_absent_or_blank:
  "isna val \<or> strip (py_str val) = [] \<Longrightarrow> t2_to_hex val w = Inr []"
  by (simp add: t2_to_hex_def)

lemma t2_to_hex_retry:
  assumes "\<not> isna val" and "strip (py_str val) \<noteq> []" and "py_int val = Inl e"
  shows "t2_to_hex val w =
           (case py_float_of_str (replace_comma (py_str val)) of
              None \<Rightarrow> Inl ValueError
            | Some f \<Rightarrow> (case int_of_float f of Inl e' \<Rightarrow> Inl e' | Inr i \<Rightarrow> format_hex w i))"
  using assms by (simp add: t2_to_hex_def py_float_def split: option.splits sum.splits)

lemma int_of_float_truncates:
  "int_of_float (FFin q) = Inr (if 0 \<le> q then \<lfloor>q\<rfloor> else - \<lfloor>- q\<rfloor>)"
  by (simp add: int_of_float_def ceiling_def)

lemma to_hex_absent: "isna val \<Longrightarrow> to_hex val w = Inr []"
  by (simp add: to_hex_def)

text \<open>
  C5. The normalizer of test2.py does what the claim says: absent and blank input give the
  empty string, and input that fails \<^verbatim>\<open>int\<close> is retried with every comma replaced by a
  point, read as a float and truncated, so "10,5" at width 4 gives "000A". The
  normalizer of test.py does not: it has no test for blank text and retries
  \<^verbatim>\<open>float\<close> on the unchanged text, so blank text and "10,5" both end in the
  \<^verbatim>\<open>ValueError\<close> of the retry.
\<close>

theorem to_hex_blank_and_comma:
  "to_hex (PStr ''10,5'') 4 = Inl ValueError
   \<and> to_hex (PStr '' '') 4 = Inl ValueError
   \<and> to_hex (PStr []) 4 = Inl ValueError
   \<and> to_hex PNone 4 = Inr []
   \<and> to_hex (PStr ''10.5'') 4 = Inr ''000A''
   \<and> t2_to_hex (PStr ''10,5'') 4 = Inr ''000A''
   \<and> t2_to_hex (PStr '' '') 4 = Inr []
   \<and> t2_to_hex (PStr []) 4 = Inr []
   \<and> t2_to_hex PNone 4 = Inr []"
  by (intro conjI; code_simp)


subsection \<open>Resolving a column\<close>

lemma py_in_sublist: "py_in a b = sublist a b"
  by (induction b) (auto simp: sublist_Cons_right)

lemma dict_set_fresh: "k \<notin> fst ` set d \<Longrightarrow> dict_set d k v = d @ [(k, v)]"
  by (induction d) auto

lemma foldl_dict_set_distinct:
  "distinct (map f cols) \<Longrightarrow> f ` set cols \<inter> fst ` set d = {} \<Longrightarrow>
     foldl (\<lambda>m c. dict_set m (f c) c) d cols = d @ map (\<lambda>c. (f c, c)) cols"
proof (induction cols arbitrary: d)
  case Nil
  then show ?case by simp
next
  case (Cons c cols)
  have fresh: "f c \<notin> fst ` set d" using Cons.prems(2) by auto
  have "f ` set cols \<inter> fst ` set (d @ [(f c, c)]) = {}"
    using Cons.prems by auto
  with Cons.IH [of "d @ [(f c, c)]"] Cons.prems(1) show ?case
    by (simp add: dict_set_fresh [OF fresh])
qed

lemma mapping_distinct:
  "distinct (map f cols) \<Longrightarrow> foldl (\<lambda>m c. dict_set m (f c) c) [] cols = map (\<lambda>c. (f c, c)) cols"
  using foldl_dict_set_distinct [of f cols "[]"] by simp

lemma map_of_keyed: "map_of (map (\<lambda>c. (f c, c)) cols) k = find (\<lambda>c. f c = k) cols"
  by (induction cols) auto

lemma first_partial_keyed:
  "first_partial t (map (\<lambda>c. (f c, c)) cols) = find (\<lambda>c. py_in t (f c) \<or> py_in (f c) t) cols"
  by (induction cols) auto

lemma resolve_column_distinct:
  assumes "distinct (map normalize_text (columns df))"
  shows "resolve_column df target =
     (case find (\<lambda>c. normalize_text c = normalize_text target) (columns df) of
        Some c \<Rightarrow> Inr c
      | None \<Rightarrow>
          (case find (\<lambda>c. py_in (normalize_text target) (normalize_text c) \<or> py_in (normalize_text c) (normalize_text target))
                  (columns df) of
             Some c \<Rightarrow> Inr c
           | None \<Rightarrow> Inl (KeyError_columns (columns df))))"
  by (simp add: resolve_column_def Let_def mapping_distinct [OF assms] map_of_keyed first_partial_keyed
      split: option.split)

lemma normalize_colnames_distinct:
  "distinct (map normalize_text cols) \<Longrightarrow> normalize_colnames cols = map (\<lambda>c. (normalize_text c, c)) cols"
  unfolding normalize_colnames_def normalize_text_def [symmetric] by (rule mapping_distinct)

lemma t2_extract_distinct:
  assumes "distinct (map normalize_text (columns df))"
  shows "t2_extract (normalize_text target) df =
     (case (case find (\<lambda>c. normalize_text c = normalize_text target) (columns df) of
              Some c \<Rightarrow> Inr c
            | None \<Rightarrow>
                (case find (\<lambda>c. py_in (normalize_text target) (normalize_text c) \<or> py_in (normalize_text c) (normalize_text target))
                        (columns df) of
                   Some c \<Rightarrow> Inr c
                 | None \<Rightarrow> Inl KeyError)) of
        Inl e \<Rightarrow> Inl e
      | Inr colname \<Rightarrow> (case map_of df colname of
                           None \<Rightarrow> Inl KeyError
                         | Some cells \<Rightarrow> Inr (clean_cells cells)))"
  by (simp add: t2_extract_def Let_def normalize_colnames_distinct [OF assms] map_of_keyed
      first_partial_keyed split: option.splits)

lemma resolver_examples:
  "resolve_column [(''GCI ID'', []), (''Notes'', [])] ''GCI'' = Inr ''GCI ID''"
  "t2_extract (normalize_text ''GCI'') [(''GCI ID'', [Some ''a 1'', None]), (''Notes'', [Some ''n''])] = Inr [''A1'']"
  by code_simp+

text \<open>
  C6, the claim as it stands fails: the headers are first collected in a dictionary keyed
  by their normalized form, so of two headers with the same normalized form only the
  later one is kept, at the place of the earlier. With the headers "GCI ID" and "GCIID"
  and the logical name "GCI" there is no exact match, the first header in source order
  that contains the name is "GCI ID", and both variants take the column "GCIID".
\<close>

theorem resolver_first_header_counterexample:
  "find (\<lambda>c. normalize_text c = normalize_text ''GCI'') [''GCI ID'', ''GCIID''] = None
   \<and> find (\<lambda>c. py_in (normalize_text ''GCI'') (normalize_text c) \<or> py_in (normalize_text c) (normalize_text ''GCI''))
        [''GCI ID'', ''GCIID''] = Some ''GCI ID''
   \<and> resolve_column [(''GCI ID'', [Some ''x'']), (''GCIID'', [Some ''y''])] ''GCI'' = Inr ''GCIID''
   \<and> t2_extract (normalize_text ''GCI'') [(''GCI ID'', [Some ''x'']), (''GCIID'', [Some ''y''])] = Inr [''Y'']"
  by (intro conjI; code_simp)

text \<open>
  C6, amended. For every header list whose headers have pairwise distinct normalized
  forms (all white space removed, lower-cased) and every logical column name: the
  resolver returns the header whose normalized form equals the normalized name, if there
  is one; otherwise the first header in source order such that the normalized name
  occurs in the normalized header or the normalized header in the normalized name;
  otherwise it raises \<^verbatim>\<open>KeyError\<close>. The extraction of test2.py chooses its column the
  same way. With the headers "GCI ID" and "Notes" and the name "GCI" the result is
  "GCI ID".
\<close>

theorem resolver_distinct_headers:
  "distinct (map normalize_text (columns df)) \<Longrightarrow>
     resolve_column df target =
       (case find (\<lambda>c. normalize_text c = normalize_text target) (columns df) of
          Some c \<Rightarrow> Inr c
        | None \<Rightarrow>
            (case find (\<lambda>c. sublist (normalize_text target) (normalize_text c)
                           \<or> sublist (normalize_text c) (normalize_text target)) (columns df) of
               Some c \<Rightarrow> Inr c
             | None \<Rightarrow> Inl (KeyError_columns (columns df))))
   \<and> t2_extract (normalize_text target) df =
       (case (case find (\<lambda>c. normalize_text c = normalize_text target) (columns df) of
                Some c \<Rightarrow> Inr c
              | None \<Rightarrow>
                  (case find (\<lambda>c. sublist (normalize_text target) (normalize_text c)
                                 \<or> sublist (normalize_text c) (normalize_text target)) (columns df) of
                     Some c \<Rightarrow> Inr c
                   | None \<Rightarrow> Inl KeyError)) of
          Inl e \<Rightarrow> Inl e
        | Inr colname \<Rightarrow> (case map_of df colname of
                             None \<Rightarrow> Inl KeyError
                           | Some cells \<Rightarrow> Inr (clean_cells cells)))
   \<and> normalize_text target = lower (remove_ws target)
   \<and> resolve_column [(''GCI ID'', []), (''Notes'', [])] ''GCI'' = Inr ''GCI ID''
   \<and> t2_extract (normalize_text ''GCI'') [(''GCI ID'', [Some ''a 1'', None]), (''Notes'', [Some ''n''])]
       = Inr [''A1'']"
proof -
  assume d: "distinct (map normalize_text (columns df))"
  have n: "normalize_text target = lower (remove_ws target)"
    by (simp add: normalize_text_def remove_ws_def strip_no_space)
  show ?thesis
    by (intro conjI resolve_column_distinct [OF d, unfolded py_in_sublist]
        t2_extract_distinct [OF d, unfolded py_in_sublist] n resolver_examples)
qed

theorem resolver_distinct_headers_witness:
  "distinct (map normalize_text (columns [(''Cell'', []), (''GCI ID'', []), (''Notes'', [])]))
   \<and> resolve_column [(''Cell'', []), (''GCI ID'', []), (''Notes'', [])] ''gci'' = Inr ''GCI ID''"
proof -
  let ?df = "[(''Cell'', []), (''GCI ID'', []), (''Notes'', [])] :: dataframe"
  have d: "distinct (map normalize_text (columns ?df))" by code_simp
  from resolver_distinct_headers [OF d, of "''gci''"]
  have "resolve_column ?df ''gci'' =
       (case find (\<lambda>c. normalize_text c = normalize_text ''gci'') (columns ?df) of
          Some c \<Rightarrow> Inr c
        | None \<Rightarrow>
            (case find (\<lambda>c. sublist (normalize_text ''gci'') (normalize_text c)
                           \<or> sublist (normalize_text c) (normalize_text ''gci'')) (columns ?df) of
               Some c \<Rightarrow> Inr c
             | None \<Rightarrow> Inl (KeyError_columns (columns ?df))))"
    by (rule conjunct1)
  also have "\<dots> = Inr ''GCI ID''" by code_simp
  finally show ?thesis using d by simp
qed


subsection \<open>Searching the sheets of a workbook\<close>

lemma extract_from_df_KeyError: "extract_from_df df column = Inl e \<Longrightarrow> is_KeyError e"
  by (auto simp: extract_from_df_def resolve_column_def Let_def is_KeyError_def
      split: option.splits sum.splits)

lemma search_sheets_find:
  "distinct (map fst wb) \<Longrightarrow> fst ` set wb \<inter> fst ` set tried = {} \<Longrightarrow>
     search_sheets wb column tried =
       (case find (\<lambda>(name, df). \<not> isl (extract_from_df df column)) wb of
          Some (name, df) \<Rightarrow> extract_from_df df column
        | None \<Rightarrow> Inl (KeyError_sheets (tried @ map (\<lambda>(name, df). (name, columns df)) wb)))"
proof (induction wb arbitrary: tried)
  case Nil
  then show ?case by simp
next
  case (Cons s wb)
  obtain name df where s: "s = (name, df)" by (cases s)
  show ?case
  proof (cases "extract_from_df df column")
    case (Inr r)
    then show ?thesis by (simp add: s)
  next
    case (Inl e)
    have fresh: "name \<notin> fst ` set tried" using Cons.prems(2) s by auto
    have "fst ` set wb \<inter> fst ` set (tried @ [(name, columns df)]) = {}"
      using Cons.prems s by auto
    with Cons.IH [of "tried @ [(name, columns df)]"] Cons.prems(1)
    show ?thesis
      using Inl extract_from_df_KeyError [OF Inl]
      by (simp add: s dict_set_fresh [OF fresh] split: option.split)
  qed
qed

lemma t2_search_sheets_find:
  "distinct (map fst wb) \<Longrightarrow> fst ` set wb \<inter> fst ` set tried = {} \<Longrightarrow>
     t2_search_sheets wb key tried =
       (case find (\<lambda>(name, df). \<not> isl (t2_extract key df)) wb of
          Some (name, df) \<Rightarrow> t2_extract key df
        | None \<Rightarrow> Inl (SystemExit_sheets (tried @ map (\<lambda>(name, df). (name, columns df)) wb)))"
proof (induction wb arbitrary: tried)
  case Nil
  then show ?case by simp
next
  case (Cons s wb)
  obtain name df where s: "s = (name, df)" by (cases s)
  show ?case
  proof (cases "t2_extract key df")
    case (Inr r)
    then show ?thesis by (simp add: s)
  next
    case (Inl e)
    have fresh: "name \<notin> fst ` set tried" using Cons.prems(2) s by auto
    have "fst ` set wb \<inter> fst ` set (tried @ [(name, columns df)]) = {}"
      using Cons.prems s by auto
    with Cons.IH [of "tried @ [(name, columns df)]"] Cons.prems(1)
    show ?thesis
      using Inl by (simp add: s dict_set_fresh [OF fresh] split: option.split)
  qed
qed

lemma load_excel_column_no_sheet:
  assumes "distinct (map fst wb)"
  shows "load_excel_column wb column None =
       (case find (\<lambda>(name, df). \<not> isl (extract_from_df df column)) wb of
          Some (name, df) \<Rightarrow> extract_from_df df column
        | None \<Rightarrow> Inl (KeyError_sheets (map (\<lambda>(name, df). (name, columns df)) wb)))"
  using search_sheets_find [OF assms, of "[]" column]
  by (simp add: load_excel_column_def split: option.split)

lemma read_excel_column_no_sheet:
  assumes "distinct (map fst wb)"
  shows "read_excel_column wb wanted_col None =
       (case find (\<lambda>(name, df). \<not> isl (t2_extract (normalize_text wanted_col) df)) wb of
          Some (name, df) \<Rightarrow> t2_extract (normalize_text wanted_col) df
        | None \<Rightarrow> Inl (SystemExit_sheets (map (\<lambda>(name, df). (name, columns df)) wb)))"
proof (cases wb)
  case Nil
  then show ?thesis
    by (simp add: read_excel_column_def read_sheet_def normalize_text_def)
next
  case (Cons s rest)
  obtain name df where s: "s = (name, df)" by (cases s)
  show ?thesis
  proof (cases "t2_extract (normalize_text wanted_col) df")
    case (Inr r)
    then show ?thesis
      by (simp add: read_excel_column_def read_sheet_def normalize_text_def [symmetric] Cons s)
  next
    case (Inl e)
    then show ?thesis
      using t2_search_sheets_find [OF assms, of "[]" "normalize_text wanted_col"]
      by (simp add: read_excel_column_def read_sheet_def normalize_text_def [symmetric] Cons s Let_def
          split: option.split)
  qed
qed


lemma find_first_success:
  "(\<forall>x\<in>set failed. \<not> P x) \<Longrightarrow> P y \<Longrightarrow> find P (failed @ y # rest) = Some y"
  by (induction failed) auto

lemma find_none: "(\<forall>x\<in>set xs. \<not> P x) \<Longrightarrow> find P xs = None"
  by (induction xs) auto

text \<open>
  C7. When no sheet is specified, the sheets are tried in the order of the workbook,
  the first sheet first (test2.py reads it alone before it reads them all), and the
  result is the extraction from the first sheet on which the column is found. If the
  column is found on no sheet, the error raised (\<^verbatim>\<open>KeyError\<close> in test.py,
  \<^verbatim>\<open>SystemExit\<close> in test2.py) carries every sheet by name with the full list of its
  headers. Sheet names are the keys of the dictionary \<^verbatim>\<open>read_excel\<close> returns, hence
  distinct.
\<close>

theorem sheet_fallback:
  "distinct (map fst wb) \<Longrightarrow>
     load_excel_column wb column None =
       (case find (\<lambda>(name, df). \<not> isl (extract_from_df df column)) wb of
          Some (name, df) \<Rightarrow> extract_from_df df column
        | None \<Rightarrow> Inl (KeyError_sheets (map (\<lambda>(name, df). (name, columns df)) wb)))
   \<and> read_excel_column wb column None =
       (case find (\<lambda>(name, df). \<not> isl (t2_extract (normalize_text column) df)) wb of
          Some (name, df) \<Rightarrow> t2_extract (normalize_text column) df
        | None \<Rightarrow> Inl (SystemExit_sheets (map (\<lambda>(name, df). (name, columns df)) wb)))
   \<and> (wb = failed @ (name, df) # rest
        \<and> (\<forall>(n, d) \<in> set failed. isl (extract_from_df d column))
        \<and> extract_from_df df column = Inr r
      \<longrightarrow> load_excel_column wb column None = Inr r)
   \<and> (wb = failed @ (name, df) # rest
        \<and> (\<forall>(n, d) \<in> set failed. isl (t2_extract (normalize_text column) d))
        \<and> t2_extract (normalize_text column) df = Inr r
      \<longrightarrow> read_excel_column wb column None = Inr r)
   \<and> ((\<forall>(n, d) \<in> set wb. isl (extract_from_df d column))
      \<longrightarrow> load_excel_column wb column None
            = Inl (KeyError_sheets (map (\<lambda>(name, df). (name, columns df)) wb)))
   \<and> ((\<forall>(n, d) \<in> set wb. isl (t2_extract (normalize_text column) d))
      \<longrightarrow> read_excel_column wb column None
            = Inl (SystemExit_sheets (map (\<lambda>(name, df). (name, columns df)) wb)))"
proof -
  assume d: "distinct (map fst wb)"
  note l = load_excel_column_no_sheet [OF d, of column]
  note r = read_excel_column_no_sheet [OF d, of column]
  have l1: "load_excel_column wb column None = Inr r"
    if "wb = failed @ (name, df) # rest" "\<forall>(n, d) \<in> set failed. isl (extract_from_df d column)"
      "extract_from_df df column = Inr r"
  proof -
    have "find (\<lambda>(name, df). \<not> isl (extract_from_df df column)) wb = Some (name, df)"
      unfolding that(1) using that(2,3) by (intro find_first_success) auto
    then show ?thesis using l that(3) by simp
  qed
  have r1: "read_excel_column wb column None = Inr r"
    if "wb = failed @ (name, df) # rest"
      "\<forall>(n, d) \<in> set failed. isl (t2_extract (normalize_text column) d)"
      "t2_extract (normalize_text column) df = Inr r"
  proof -
    have "find (\<lambda>(name, df). \<not> isl (t2_extract (normalize_text column) df)) wb = Some (name, df)"
      unfolding that(1) using that(2,3) by (intro find_first_success) auto
    then show ?thesis using r that(3) by simp
  qed
  have l2: "load_excel_column wb column None
            = Inl (KeyError_sheets (map (\<lambda>(name, df). (name, columns df)) wb))"
    if "\<forall>(n, d) \<in> set wb. isl (extract_from_df d column)"
  proof -
    have "find (\<lambda>(name, df). \<not> isl (extract_from_df df column)) wb = None"
      using that by (intro find_none) auto
    then show ?thesis using l by simp
  qed
  have r2: "read_excel_column wb column None
            = Inl (SystemExit_sheets (map (\<lambda>(name, df). (name, columns df)) wb))"
    if "\<forall>(n, d) \<in> set wb. isl (t2_extract (normalize_text column) d)"
  proof -
    have "find (\<lambda>(name, df). \<not> isl (t2_extract (normalize_text column) df)) wb = None"
      using that by (intro find_none) auto
    then show ?thesis using r by simp
  qed
  show ?thesis
    apply (intro conjI impI)
    subgoal by (rule l)
    subgoal by (rule r)
    subgoal by (rule l1) blast+
    subgoal by (rule r1) blast+
    subgoal by (rule l2)
    subgoal by (rule r2)
    done
qed

theorem sheet_fallback_witness:
  "distinct (map fst [(''Sheet1'', [(''Notes'', [Some ''n''])]), (''Data'', [(''GCI ID'', [Some '' ab 1 '', None])])])
   \<and> load_excel_column [(''Sheet1'', [(''Notes'', [Some ''n''])]), (''Data'', [(''GCI ID'', [Some '' ab 1 '', None])])]
        ''GCI'' None = Inr [''AB1'']
   \<and> read_excel_column [(''Sheet1'', [(''Notes'', [Some ''n''])]), (''Data'', [(''GCI ID'', [Some '' ab 1 '', None])])]
        ''GCI'' None = Inr [''AB1'']
   \<and> load_excel_column [(''Sheet1'', [(''Notes'', [Some ''n''])]), (''Data'', [(''Cell'', []), (''Id'', [])])]
        ''GCI'' None = Inl (KeyError_sheets [(''Sheet1'', [''Notes'']), (''Data'', [''Cell'', ''Id''])])
   \<and> read_excel_column [(''Sheet1'', [(''Notes'', [Some ''n''])]), (''Data'', [(''Cell'', []), (''Id'', [])])]
        ''GCI'' None = Inl (SystemExit_sheets [(''Sheet1'', [''Notes'']), (''Data'', [''Cell'', ''Id''])])"
proof -
  let ?wb = "[(''Sheet1'', [(''Notes'', [Some ''n''])]), (''Data'', [(''GCI ID'', [Some '' ab 1 '', None])])] :: workbook"
  let ?wb2 = "[(''Sheet1'', [(''Notes'', [Some ''n''])]), (''Data'', [(''Cell'', []), (''Id'', [])])] :: workbook"
  have d: "distinct (map fst ?wb)" and d2: "distinct (map fst ?wb2)" by simp_all
  have e1: "(case find (\<lambda>(name, df). \<not> isl (extract_from_df df ''GCI'')) ?wb of
          Some (name, df) \<Rightarrow> extract_from_df df ''GCI''
        | None \<Rightarrow> Inl (KeyError_sheets (map (\<lambda>(name, df). (name, columns df)) ?wb))) = Inr [''AB1'']"
    by code_simp
  have e2: "(case find (\<lambda>(name, df). \<not> isl (t2_extract (normalize_text ''GCI'') df)) ?wb of
          Some (name, df) \<Rightarrow> t2_extract (normalize_text ''GCI'') df
        | None \<Rightarrow> Inl (SystemExit_sheets (map (\<lambda>(name, df). (name, columns df)) ?wb))) = Inr [''AB1'']"
    by code_simp
  have e3: "(case find (\<lambda>(name, df). \<not> isl (extract_from_df df ''GCI'')) ?wb2 of
          Some (name, df) \<Rightarrow> extract_from_df df ''GCI''
        | None \<Rightarrow> Inl (KeyError_sheets (map (\<lambda>(name, df). (name, columns df)) ?wb2)))
        = Inl (KeyError_sheets [(''Sheet1'', [''Notes'']), (''Data'', [''Cell'', ''Id''])])"
    by code_simp
  have e4: "(case find (\<lambda>(name, df). \<not> isl (t2_extract (normalize_text ''GCI'') df)) ?wb2 of
          Some (name, df) \<Rightarrow> t2_extract (normalize_text ''GCI'') df
        | None \<Rightarrow> Inl (SystemExit_sheets (map (\<lambda>(name, df). (name, columns df)) ?wb2)))
        = Inl (SystemExit_sheets [(''Sheet1'', [''Notes'']), (''Data'', [''Cell'', ''Id''])])"
    by code_simp
  from sheet_fallback [OF d, of "''GCI''"] have
    a: "load_excel_column ?wb ''GCI'' None = Inr [''AB1'']"
    and b: "read_excel_column ?wb ''GCI'' None = Inr [''AB1'']"
    unfolding e1 e2 by blast+
  from sheet_fallback [OF d2, of "''GCI''"] have
    c: "load_excel_column ?wb2 ''GCI'' None
          = Inl (KeyError_sheets [(''Sheet1'', [''Notes'']), (''Data'', [''Cell'', ''Id''])])"
    and e: "read_excel_column ?wb2 ''GCI'' None
          = Inl (SystemExit_sheets [(''Sheet1'', [''Notes'']), (''Data'', [''Cell'', ''Id''])])"
    unfolding e3 e4 by blast+
  show ?thesis using d a b c e by blast
qed


subsection \<open>Identifiers hold no white space and are upper-case\<close>

lemma remove_ws_no_space: "c \<in> set (remove_ws s) \<Longrightarrow> \<not> is_space c"
  by (simp add: remove_ws_def)

lemma remove_ws_id: "\<forall>c\<in>set s. \<not> is_space c \<Longrightarrow> remove_ws s = s"
  by (simp add: remove_ws_def)

lemma set_strip: "set (strip s) \<subseteq> set s"
proof -
  have "set (strip s) \<subseteq> set (dropWhile is_space s)"
    unfolding strip_def using set_dropWhileD [of _ is_space "rev (dropWhile is_space s)"] by auto
  also have "\<dots> \<subseteq> set s" using set_dropWhileD [of _ is_space s] by auto
  finally show ?thesis .
qed

lemma set_zfill: "set (zfill w s) \<subseteq> insert CHR ''0'' (set s)"
  by (cases s) auto

lemma zfill_no_space: "\<forall>c\<in>set s. \<not> is_space c \<Longrightarrow> c \<in> set (zfill w s) \<Longrightarrow> \<not> is_space c"
  using set_zfill [of w s] by auto

lemma format_zero_no_space:
  "\<forall>c\<in>set ds. \<not> is_space c \<Longrightarrow> c \<in> set (format_zero ds w neg) \<Longrightarrow> \<not> is_space c"
  by (auto simp: format_zero_def split: if_splits)

lemma format_d_no_space: "c \<in> set (format_d w v) \<Longrightarrow> \<not> is_space c"
  unfolding format_d_def using format_zero_no_space dec_digits_no_space by blast

lemma format_X_no_space: "c \<in> set (format_X w v) \<Longrightarrow> \<not> is_space c"
  unfolding format_X_def using format_zero_no_space hex_digits_no_space by blast

lemma norm_digits_no_space:
  "norm_digits val mw mx = Inr s \<Longrightarrow> c \<in> set s \<Longrightarrow> \<not> is_space c"
  by (auto simp: norm_digits_def Let_def remove_ws_no_space
      split: if_splits sum.splits option.splits dest: zfill_no_space [rotated])

lemma t2_digits_no_space: "c \<in> set (t2_digits val) \<Longrightarrow> \<not> is_space c"
  using set_strip [of "remove_ws (py_str val)"] remove_ws_no_space
  by (auto simp: t2_digits_def split: if_splits)

lemma mnc_str_no_space:
  "\<forall>c\<in>set raw. \<not> is_space c \<Longrightarrow> c \<in> set (mnc_str mode raw) \<Longrightarrow> \<not> is_space c"
  by (auto simp: mnc_str_def format_d_no_space split: if_splits option.splits
      dest: zfill_no_space [rotated])

lemma to_hex_no_space: "to_hex val w = Inr s \<Longrightarrow> c \<in> set s \<Longrightarrow> \<not> is_space c"
  by (auto simp: to_hex_def format_hex_def format_X_no_space split: if_splits sum.splits)

lemma t2_to_hex_no_space: "t2_to_hex val w = Inr s \<Longrightarrow> c \<in> set s \<Longrightarrow> \<not> is_space c"
  by (auto simp: t2_to_hex_def format_hex_def format_X_no_space split: if_splits sum.splits)

lemma upper_no_space: "\<forall>c\<in>set s. \<not> is_space c \<Longrightarrow> c \<in> set (upper s) \<Longrightarrow> \<not> is_space c"
  by (auto simp: upper_def)

lemma build_id_no_space:
  assumes "build_id mcc mnc lac ci mw mode lw cw = Inr ident"
  shows "\<forall>c\<in>set ident. \<not> is_space c" and "upper ident = ident"
proof -
  from assms obtain mcc_s raw lh ch where
    p: "(if mw \<noteq> 0 then norm_digits mcc (Some mw) (Some mw) else norm_digits mcc None None) = Inr mcc_s"
      "norm_digits mnc None None = Inr raw" "to_hex lac lw = Inr lh" "to_hex ci cw = Inr ch"
    and i: "ident = upper (mcc_s @ mnc_str mode raw @ lh @ ch)"
    by (auto simp: build_id_def split: sum.splits)
  have "\<forall>c\<in>set mcc_s. \<not> is_space c"
    using p(1) norm_digits_no_space by (auto split: if_splits)
  moreover have r: "\<forall>c\<in>set raw. \<not> is_space c" using p(2) norm_digits_no_space by blast
  moreover have "\<forall>c\<in>set (mnc_str mode raw). \<not> is_space c" using mnc_str_no_space [OF r] by blast
  moreover have "\<forall>c\<in>set lh. \<not> is_space c" using p(3) to_hex_no_space by blast
  moreover have "\<forall>c\<in>set ch. \<not> is_space c" using p(4) to_hex_no_space by blast
  ultimately have "\<forall>c\<in>set (mcc_s @ mnc_str mode raw @ lh @ ch). \<not> is_space c" by auto
  then show "\<forall>c\<in>set ident. \<not> is_space c" unfolding i using upper_no_space by blast
  show "upper ident = ident" unfolding i by simp
qed

lemma t2_build_id_no_space:
  assumes "t2_build_id mcc mnc lac ci mode lw cw = Inr ident"
  shows "\<forall>c\<in>set ident. \<not> is_space c" and "upper ident = ident" and "3 \<le> length ident"
proof -
  from assms obtain lh ch where
    p: "t2_to_hex lac lw = Inr lh" "t2_to_hex ci cw = Inr ch"
    and i: "ident = upper (zfill 3 (t2_digits mcc) @ t2_mnc_s mode (t2_digits mnc) @ lh @ ch)"
    by (auto simp: t2_build_id_def Let_def split: sum.splits)
  have m: "\<forall>c\<in>set (t2_digits mcc). \<not> is_space c" using t2_digits_no_space by blast
  have "\<forall>c\<in>set (zfill 3 (t2_digits mcc)). \<not> is_space c" using zfill_no_space [OF m] by blast
  moreover have r: "\<forall>c\<in>set (t2_digits mnc). \<not> is_space c" using t2_digits_no_space by blast
  moreover have "\<forall>c\<in>set (t2_mnc_s mode (t2_digits mnc)). \<not> is_space c"
    unfolding t2_mnc_s_eq using mnc_str_no_space [OF r] by blast
  moreover have "\<forall>c\<in>set lh. \<not> is_space c" using p(1) t2_to_hex_no_space by blast
  moreover have "\<forall>c\<in>set ch. \<not> is_space c" using p(2) t2_to_hex_no_space by blast
  ultimately have "\<forall>c\<in>set (zfill 3 (t2_digits mcc) @ t2_mnc_s mode (t2_digits mnc) @ lh @ ch). \<not> is_space c"
    by auto
  then show "\<forall>c\<in>set ident. \<not> is_space c" unfolding i using upper_no_space by blast
  show "upper ident = ident" unfolding i by simp
  show "3 \<le> length ident" unfolding i by (simp add: length_zfill)
qed

lemma renormalize_text:
  assumes "\<forall>c\<in>set s. \<not> is_space c" and "upper s = s"
  shows "remove_ws (upper (strip s)) = s"
    and "norm_digits (PStr s) None mx = Inr s"
    and "w \<le> int (length s) \<Longrightarrow> norm_digits (PStr s) (Some w) mx = Inr s"
    and "t2_digits (PStr s) = s"
    and "3 \<le> length s \<Longrightarrow> zfill 3 (t2_digits (PStr s)) = s"
  using assms
  by (simp_all add: strip_no_space remove_ws_id norm_digits_def t2_digits_def isna_def py_str_def)


subsection \<open>Normalizing an identifier again\<close>

lemma norm_digits_present_wide:
  assumes "norm_digits val (Some w) mx = Inr s" and "\<not> isna val"
  shows "w \<le> int (length s)"
  using assms
  by (auto simp: norm_digits_def Let_def length_zfill split: if_splits sum.splits)

lemma build_id_present_mcc_wide:
  assumes "build_id mcc mnc lac ci mw mode lw cw = Inr ident" and "\<not> isna mcc"
  shows "mw \<le> int (length ident)"
proof -
  from assms(1) obtain mcc_s raw lh ch where
    p: "(if mw \<noteq> 0 then norm_digits mcc (Some mw) (Some mw) else norm_digits mcc None None) = Inr mcc_s"
    and i: "ident = upper (mcc_s @ mnc_str mode raw @ lh @ ch)"
    by (auto simp: build_id_def split: sum.splits)
  show ?thesis
  proof (cases "mw = 0")
    case True
    then show ?thesis by simp
  next
    case False
    with p have "norm_digits mcc (Some mw) (Some mw) = Inr mcc_s" by simp
    from norm_digits_present_wide [OF this assms(2)] show ?thesis unfolding i by simp
  qed
qed

lemma clean_idem: "remove_ws (upper (strip (remove_ws (upper (strip x))))) = remove_ws (upper (strip x))"
proof -
  let ?s = "remove_ws (upper (strip x))"
  have n: "\<forall>c\<in>set ?s. \<not> is_space c" using remove_ws_no_space by blast
  have u: "upper ?s = ?s" by (simp add: remove_ws_def upper_def filter_map comp_def)
  show ?thesis using renormalize_text(1) [OF n u] .
qed

lemma t2_digits_idem: "t2_digits (PStr (t2_digits val)) = t2_digits val"
proof -
  have n: "\<forall>c\<in>set (t2_digits val). \<not> is_space c" using t2_digits_no_space by blast
  then show ?thesis
    by (simp add: t2_digits_def [of "PStr _"] isna_def py_str_def remove_ws_id strip_no_space)
qed

lemma norm_digits_idem:
  assumes "norm_digits val mw mx = Inr s" and "\<not> isna val"
  shows "norm_digits (PStr s) mw mx = Inr s"
proof -
  have n: "\<forall>c\<in>set s. \<not> is_space c" using norm_digits_no_space [OF assms(1)] by blast
  show ?thesis
  proof (cases mw)
    case None
    then show ?thesis using n
      by (simp add: norm_digits_def isna_def py_str_def strip_no_space remove_ws_id)
  next
    case (Some w)
    from norm_digits_present_wide [OF assms(1) [unfolded Some] assms(2)]
    have "w \<le> int (length s)" .
    then show ?thesis using n Some
      by (simp add: norm_digits_def isna_def py_str_def strip_no_space remove_ws_id)
  qed
qed

text \<open>
  C9, the claim as it stands fails: an absent MCC is normalized to the empty string and is
  not padded, so in test.py an identifier can be shorter than the MCC width; read again as
  text with the same width it is padded. The row with MNC 1 and nothing else gives the
  identifier "01", which passes the filter of empty identifiers and re-normalizes at width
  3 to "001". In the same way the normalized form of an absent field, the empty string,
  re-normalizes to "000".
\<close>

theorem renormalization_counterexample:
  "build_id PNone (PInt 1) PNone PNone 3 ''auto'' 4 4 = Inr ''01''
   \<and> load_access_compound_ids [(PNone, PInt 1, PNone, PNone)] ''auto'' 4 4 = Inr [''01'']
   \<and> norm_digits (PStr ''01'') (Some 3) (Some 3) = Inr ''001''
   \<and> ''001'' \<noteq> ''01''
   \<and> norm_digits PNone (Some 3) (Some 3) = Inr []
   \<and> norm_digits (PStr []) (Some 3) (Some 3) = Inr ''000''"
  by (intro conjI; code_simp)

text \<open>
  C9, amended. Re-normalizing an identifier as text yields the identical string whenever
  the identifier is at least as long as the MCC width, which holds for every identifier
  test.py builds from a row whose MCC is present and for every identifier of test2.py:
  the digit normalization with the same minimum width (and without one) returns the
  identifier unchanged, and so does the normalization applied to spreadsheet candidates
  (strip, upper-case, remove white space). The normalizers are idempotent on the output
  they give for a present value.
\<close>

theorem renormalization_idempotent:
  "(build_id mcc mnc lac ci mw mode lw cw = Inr ident \<longrightarrow>
        remove_ws (upper (strip ident)) = ident
      \<and> norm_digits (PStr ident) None None = Inr ident
      \<and> (mw \<le> int (length ident) \<longrightarrow> norm_digits (PStr ident) (Some mw) (Some mw) = Inr ident)
      \<and> (\<not> isna mcc \<longrightarrow> mw \<le> int (length ident)))
   \<and> (t2_build_id mcc mnc lac ci mode lw cw = Inr ident' \<longrightarrow>
        remove_ws (upper (strip ident')) = ident'
      \<and> t2_digits (PStr ident') = ident'
      \<and> zfill 3 (t2_digits (PStr ident')) = ident')
   \<and> (norm_digits val min_width max_width = Inr s \<and> \<not> isna val
        \<longrightarrow> norm_digits (PStr s) min_width max_width = Inr s)
   \<and> t2_digits (PStr (t2_digits val)) = t2_digits val
   \<and> remove_ws (upper (strip (remove_ws (upper (strip x))))) = remove_ws (upper (strip x))"
proof (intro conjI impI)
  assume b: "build_id mcc mnc lac ci mw mode lw cw = Inr ident"
  note ns = build_id_no_space [OF b]
  show "remove_ws (upper (strip ident)) = ident" by (rule renormalize_text(1) [OF ns])
  show "norm_digits (PStr ident) None None = Inr ident" by (rule renormalize_text(2) [OF ns])
  show "norm_digits (PStr ident) (Some mw) (Some mw) = Inr ident" if "mw \<le> int (length ident)"
    using that by (rule renormalize_text(3) [OF ns])
  show "mw \<le> int (length ident)" if "\<not> isna mcc"
    using b that by (rule build_id_present_mcc_wide)
next
  assume b: "t2_build_id mcc mnc lac ci mode lw cw = Inr ident'"
  note ns = t2_build_id_no_space [OF b]
  show "remove_ws (upper (strip ident')) = ident'" by (rule renormalize_text(1) [OF ns(1,2)])
  show "t2_digits (PStr ident') = ident'" by (rule renormalize_text(4) [OF ns(1,2)])
  show "zfill 3 (t2_digits (PStr ident')) = ident'" by (rule renormalize_text(5) [OF ns(1,2,3)])
next
  assume "norm_digits val min_width max_width = Inr s \<and> \<not> isna val"
  then show "norm_digits (PStr s) min_width max_width = Inr s"
    using norm_digits_idem by blast
next
  show "t2_digits (PStr (t2_digits val)) = t2_digits val" by (rule t2_digits_idem)
  show "remove_ws (upper (strip (remove_ws (upper (strip x))))) = remove_ws (upper (strip x))"
    by (rule clean_idem)
qed

lemma renorm_example:
  "build_id (PInt 250) (PInt 1) (PInt 10) (PInt 20) 3 ''auto'' 4 4 = Inr ''25001000A0014''"
  "t2_build_id (PInt 250) (PInt 1) (PInt 10) (PInt 20) ''auto'' 4 4 = Inr ''25001000A0014''"
  by code_simp+

theorem renormalization_idempotent_witness:
  "build_id (PInt 250) (PInt 1) (PInt 10) (PInt 20) 3 ''auto'' 4 4 = Inr ''25001000A0014''
   \<and> t2_build_id (PInt 250) (PInt 1) (PInt 10) (PInt 20) ''auto'' 4 4 = Inr ''25001000A0014''
   \<and> \<not> isna (PInt 250)
   \<and> remove_ws (upper (strip ''25001000A0014'')) = ''25001000A0014''
   \<and> norm_digits (PStr ''25001000A0014'') (Some 3) (Some 3) = Inr ''25001000A0014''
   \<and> zfill 3 (t2_digits (PStr ''25001000A0014'')) = ''25001000A0014''"
  using renormalization_idempotent [of "PInt 250" "PInt 1" "PInt 10" "PInt 20" 3 "''auto''" 4 4
      "''25001000A0014''" "''25001000A0014''"]
  by (simp add: renorm_example isna_def)


subsection \<open>When the builder completes, and what reaches the canonical set\<close>

lemma strip_nonempty: "c \<in> set s \<Longrightarrow> \<not> is_space c \<Longrightarrow> strip s \<noteq> []"
proof
  assume c: "c \<in> set s" "\<not> is_space c" and e: "strip s = []"
  from e have "dropWhile is_space (rev (dropWhile is_space s)) = []" by (simp add: strip_def)
  then have all: "\<forall>x\<in>set (dropWhile is_space s). is_space x"
    by (simp add: dropWhile_eq_Nil_conv)
  have "dropWhile is_space s = []"
  proof (cases "dropWhile is_space s")
    case Nil
    then show ?thesis .
  next
    case (Cons a list)
    then have "\<not> is_space a" using hd_dropWhile [of is_space s] by auto
    moreover have "is_space a" using all Cons by simp
    ultimately show ?thesis by simp
  qed
  then have "\<forall>x\<in>set s. is_space x" by (simp add: dropWhile_eq_Nil_conv)
  with c show False by blast
qed

lemma float_of_inf_text:
  "py_float_of_str ''inf'' = Some (FInf False)" "py_float_of_str ''-inf'' = Some (FInf True)"
  by code_simp+


lemma punct_not_space [simp]:
  "\<not> is_space CHR ''e''" "\<not> is_space CHR ''.''" "\<not> is_space CHR ''n''" "\<not> is_space CHR ''i''"
  by (simp_all add: is_space_def)

lemma repr_pos_nonblank: "\<exists>c\<in>set (repr_pos q). \<not> is_space c"
proof -
  obtain m p where s: "shortest 1 q (floor_log10 q) = (m, p)" by (cases "shortest 1 q (floor_log10 q)")
  show ?thesis
    unfolding repr_pos_def s Let_def prod.case
    by (auto intro: bexI [of _ "CHR ''e''"] bexI [of _ "CHR ''.''"] bexI [of _ "CHR ''0''"])
qed

lemma str_of_float_nonblank: "strip (str_of_float f) \<noteq> []"
proof -
  have "\<exists>c\<in>set (str_of_float f). \<not> is_space c"
    using repr_pos_nonblank
    by (cases f) (auto simp: str_of_float_def intro: bexI [of _ "CHR ''n''"] bexI [of _ "CHR ''i''"]
        bexI [of _ "CHR ''-''"] bexI [of _ "CHR ''.''"])
  then show ?thesis using strip_nonempty by blast
qed

lemma str_of_int_nonblank: "strip (str_of_int i) \<noteq> []"
proof -
  have "strip (str_of_int i) = str_of_int i"
    using str_of_int_no_space by (intro strip_no_space) blast
  moreover have "str_of_int i \<noteq> []"
    by (simp add: str_of_int_def)
  ultimately show ?thesis by simp
qed

lemma to_hex_returns:
  assumes "to_hex v w = Inr s"
  shows "isna v \<or> reads_as_number v"
  using assms
  by (auto simp: to_hex_def reads_as_number_def int_of_float_def
      split: if_splits sum.splits pyfloat.splits)

lemma t2_to_hex_returns:
  assumes "t2_to_hex v w = Inr s"
  shows "isna v \<or> is_blank v \<or> reads_as_number_comma v"
proof (cases "isna v \<or> strip (py_str v) = []")
  case True
  then show ?thesis
    using str_of_int_nonblank str_of_float_nonblank
    by (cases v) (auto simp: is_blank_def py_str_def isna_def)
next
  case False
  with assms show ?thesis
    by (auto simp: t2_to_hex_def reads_as_number_comma_def int_of_float_def
        split: if_splits sum.splits pyfloat.splits)
qed

lemma norm_digits_returns:
  assumes "norm_digits v mw mx = Inr s"
  shows "\<not> is_infinite v"
  using assms
  by (auto simp: norm_digits_def is_infinite_def isna_def py_int_def int_of_float_def Let_def
      split: pyval.splits pyfloat.splits if_splits)

lemma to_hex_completes:
  assumes "0 \<le> w" and "isna v \<or> reads_as_number v"
  shows "\<exists>s. to_hex v w = Inr s"
  using assms
  by (auto simp: to_hex_def reads_as_number_def format_hex_def int_of_float_def
      split: sum.splits pyfloat.splits)

lemma t2_to_hex_completes:
  assumes "0 \<le> w" and "isna v \<or> is_blank v \<or> reads_as_number_comma v"
  shows "\<exists>s. t2_to_hex v w = Inr s"
  using assms
  by (auto simp: t2_to_hex_def reads_as_number_comma_def is_blank_def py_str_def format_hex_def
      int_of_float_def split: sum.splits pyfloat.splits pyval.splits)

lemma norm_digits_completes:
  assumes "\<not> is_infinite v"
  shows "\<exists>s. norm_digits v mw mx = Inr s"
  using assms
  by (auto simp: norm_digits_def is_infinite_def isna_def py_int_def int_of_float_def Let_def
      split: pyval.splits pyfloat.splits)

lemma build_id_completes:
  assumes "0 \<le> lw" "0 \<le> cw" "isna lac \<or> reads_as_number lac" "isna ci \<or> reads_as_number ci"
    "\<not> is_infinite mcc" "\<not> is_infinite mnc"
  shows "\<exists>ident. build_id mcc mnc lac ci mw mode lw cw = Inr ident"
proof -
  obtain lh where 1: "to_hex lac lw = Inr lh" using to_hex_completes [OF assms(1,3)] by blast
  obtain ch where 2: "to_hex ci cw = Inr ch" using to_hex_completes [OF assms(2,4)] by blast
  obtain raw where 3: "norm_digits mnc None None = Inr raw"
    using norm_digits_completes [OF assms(6)] by blast
  obtain m where 4: "(if mw \<noteq> 0 then norm_digits mcc (Some mw) (Some mw) else norm_digits mcc None None) = Inr m"
    using norm_digits_completes [OF assms(5), of "Some mw" "Some mw"]
      norm_digits_completes [OF assms(5), of None None] by (cases "mw = 0") auto
  from build_id_parts [OF 4 3 1 2] show ?thesis by blast
qed

lemma t2_build_id_completes:
  assumes "0 \<le> lw" "0 \<le> cw" "isna lac \<or> is_blank lac \<or> reads_as_number_comma lac"
    "isna ci \<or> is_blank ci \<or> reads_as_number_comma ci"
  shows "\<exists>ident. t2_build_id mcc mnc lac ci mode lw cw = Inr ident"
proof -
  obtain lh where 1: "t2_to_hex lac lw = Inr lh" using t2_to_hex_completes [OF assms(1,3)] by blast
  obtain ch where 2: "t2_to_hex ci cw = Inr ch" using t2_to_hex_completes [OF assms(2,4)] by blast
  from t2_build_id_parts [OF 1 2] show ?thesis by blast
qed

lemma filter_dropWhile: "filter (\<lambda>c. \<not> P c) (dropWhile P xs) = filter (\<lambda>c. \<not> P c) xs"
  by (induction xs) auto

lemma remove_ws_strip [simp]: "remove_ws (strip s) = remove_ws s"
proof -
  have "remove_ws (strip s) = rev (filter (\<lambda>c. \<not> is_space c) (dropWhile is_space (rev (dropWhile is_space s))))"
    by (simp add: remove_ws_def strip_def rev_filter)
  also have "\<dots> = rev (filter (\<lambda>c. \<not> is_space c) (rev (dropWhile is_space s)))"
    by (simp only: filter_dropWhile)
  also have "\<dots> = filter (\<lambda>c. \<not> is_space c) (dropWhile is_space s)"
    by (simp add: rev_filter [symmetric])
  also have "\<dots> = remove_ws s" by (simp add: filter_dropWhile remove_ws_def)
  finally show ?thesis .
qed

lemma strip_remove_ws [simp]: "strip (remove_ws s) = remove_ws s"
  by (simp add: strip_no_space remove_ws_no_space)

lemma norm_digits_text: "norm_digits (PStr s) (Some 3) mx = Inr (zfill 3 (remove_ws s))"
  by (auto simp: norm_digits_def isna_def py_str_def Let_def)

lemma t2_digits_text: "t2_digits (PStr s) = remove_ws s"
  by (simp add: t2_digits_def isna_def py_str_def)

lemma to_hex_upper: "to_hex v w = Inr s \<Longrightarrow> upper s = s"
  by (auto simp: to_hex_def format_hex_def upper_def split: if_splits sum.splits)
     (metis upper_def upper_format_X)+

lemma t2_to_hex_upper: "t2_to_hex v w = Inr s \<Longrightarrow> upper s = s"
  by (auto simp: t2_to_hex_def format_hex_def upper_def split: if_splits sum.splits)
     (metis upper_def upper_format_X)+

lemma append_ids_nonempty:
  "append_ids rows mode lw cw = Inr ids \<Longrightarrow> [] \<notin> set ids"
proof (induction rows arbitrary: ids)
  case Nil
  then show ?case by simp
next
  case (Cons r rows)
  obtain mcc mnc lac ci where r: "r = (mcc, mnc, lac, ci)" by (cases r)
  from Cons.prems obtain s ids' where
    "build_id mcc mnc lac ci 3 mode lw cw = Inr s"
    "append_ids rows mode lw cw = Inr ids'"
    "ids = (if s \<noteq> [] then s # ids' else ids')"
    by (auto simp: r split: sum.splits)
  with Cons.IH [of ids'] show ?case by auto
qed

lemma load_access_compound_ids_nonempty:
  "load_access_compound_ids rows mode lw cw = Inr ids \<Longrightarrow> [] \<notin> set ids"
  unfolding load_access_compound_ids_def by (rule append_ids_nonempty)

lemma fetch_access_ids_nonempty: "fetch_access_ids cfg rows = Inr ids \<Longrightarrow> [] \<notin> set ids"
  by (cases "build_all cfg rows") (auto simp: fetch_access_ids_def)

lemma main_canonical_nonempty:
  "main a = Inr (var1, var2, var3, ngci, nsai) \<Longrightarrow> [] \<notin> set var1"
  by (auto simp: main_def Let_def upper_def split: sum.splits
      dest!: load_access_compound_ids_nonempty)

lemma t2_main_canonical_nonempty:
  "t2_main cfg rows gci sai = Inr (var1, var2, var3, ngci, nsai) \<Longrightarrow> [] \<notin> set var1"
  by (auto simp: t2_main_def Let_def split: sum.splits dest!: fetch_access_ids_nonempty)

lemma build_id_returns:
  assumes "build_id mcc mnc lac ci mw mode lw cw = Inr ident"
  shows "(isna lac \<or> reads_as_number lac) \<and> (isna ci \<or> reads_as_number ci)
         \<and> \<not> is_infinite mcc \<and> \<not> is_infinite mnc"
proof -
  from assms obtain m raw lh ch where
    m: "(if mw \<noteq> 0 then norm_digits mcc (Some mw) (Some mw) else norm_digits mcc None None) = Inr m"
    and r: "norm_digits mnc None None = Inr raw"
    and l: "to_hex lac lw = Inr lh" and c: "to_hex ci cw = Inr ch"
    unfolding build_id_def by (auto split: sum.splits)
  from m have "\<not> is_infinite mcc" using norm_digits_returns by (cases "mw = 0") auto
  with norm_digits_returns [OF r] to_hex_returns [OF l] to_hex_returns [OF c] show ?thesis by blast
qed

lemma t2_build_id_returns:
  assumes "t2_build_id mcc mnc lac ci mode lw cw = Inr ident"
  shows "(isna lac \<or> is_blank lac \<or> reads_as_number_comma lac)
         \<and> (isna ci \<or> is_blank ci \<or> reads_as_number_comma ci)"
proof -
  from assms obtain lh ch where l: "t2_to_hex lac lw = Inr lh" and c: "t2_to_hex ci cw = Inr ch"
    unfolding t2_build_id_def Let_def by (auto split: sum.splits)
  from t2_to_hex_returns [OF l] t2_to_hex_returns [OF c] show ?thesis by blast
qed

lemma norm_digits_text_raw: "norm_digits (PStr t) None mx = Inr (remove_ws t)"
  by (auto simp: norm_digits_def isna_def py_str_def Let_def)


text \<open>
  C1, the claim as it stands fails. No path of either builder returns the empty string
  because a field failed to parse. A row whose MCC is the text "abc" gives the identifier
  "ABC01000A0014" in both variants, and that identifier enters the canonical list. A row
  whose LAC is the text "abc" makes both builders raise \<^verbatim>\<open>ValueError\<close>, which the loop
  over the rows does not catch.
\<close>

theorem builder_sentinel_counterexample:
  "\<not> reads_as_number (PStr ''abc'')
   \<and> build_id (PStr ''abc'') (PInt 1) (PInt 10) (PInt 20) 3 ''auto'' 4 4 = Inr ''ABC01000A0014''
   \<and> t2_build_id (PStr ''abc'') (PInt 1) (PInt 10) (PInt 20) ''auto'' 4 4 = Inr ''ABC01000A0014''
   \<and> load_access_compound_ids [(PStr ''abc'', PInt 1, PInt 10, PInt 20)] ''auto'' 4 4
       = Inr [''ABC01000A0014'']
   \<and> fetch_access_ids default_settings [(PStr ''abc'', PInt 1, PInt 10, PInt 20)]
       = Inr [''ABC01000A0014'']
   \<and> build_id (PInt 250) (PInt 1) (PStr ''abc'') (PInt 20) 3 ''auto'' 4 4 = Inl ValueError
   \<and> t2_build_id (PInt 250) (PInt 1) (PStr ''abc'') (PInt 20) ''auto'' 4 4 = Inl ValueError
   \<and> load_access_compound_ids [(PInt 250, PInt 1, PStr ''abc'', PInt 20)] ''auto'' 4 4
       = Inl ValueError"
  by (intro conjI; code_simp)

text \<open>
  C1, amended. With hex widths that are not negative, the builder of test.py completes
  without raising exactly on the rows whose LAC and CI are each absent or read as a
  number (an integer, a finite float, or text that \<^verbatim>\<open>int\<close> reads or \<^verbatim>\<open>float\<close> reads as a
  finite number) and whose MCC and MNC are not infinite floats; the builder of test2.py
  completes exactly on the rows whose LAC and CI are each absent, blank text, or read as
  a number when a comma in the text is taken for the decimal point, whatever MCC and MNC
  hold. On every other row the builder raises. No field that fails to parse is replaced
  by an empty sentinel. A text MCC passes into the identifier with its white space
  removed, padded with zeros to three characters and upper-cased. Under the automatic
  mode an MNC text that \<^verbatim>\<open>int\<close> does not read passes into the identifier with its white
  space removed and upper-cased. The identifier of test.py has at least three characters
  whenever the MCC is present, that of test2.py always. Empty identifiers are filtered
  out before the canonical set is formed, so the canonical set never holds the empty
  identifier.
\<close>

theorem builder_completion:
  "0 \<le> lw \<Longrightarrow> 0 \<le> cw \<Longrightarrow>
     ((\<exists>ident. build_id mcc mnc lac ci mw mode lw cw = Inr ident)
        \<longleftrightarrow> (isna lac \<or> reads_as_number lac) \<and> (isna ci \<or> reads_as_number ci)
             \<and> \<not> is_infinite mcc \<and> \<not> is_infinite mnc)
   \<and> ((\<exists>ident. t2_build_id mcc mnc lac ci mode lw cw = Inr ident)
        \<longleftrightarrow> (isna lac \<or> is_blank lac \<or> reads_as_number_comma lac)
             \<and> (isna ci \<or> is_blank ci \<or> reads_as_number_comma ci))
   \<and> (norm_digits mnc None None = Inr raw \<and> to_hex lac lw = Inr lh \<and> to_hex ci cw = Inr ch
      \<longrightarrow> build_id (PStr s) mnc lac ci 3 mode lw cw
            = Inr (upper (zfill 3 (remove_ws s)) @ upper (mnc_str mode raw) @ lh @ ch))
   \<and> (t2_to_hex lac lw = Inr lh' \<and> t2_to_hex ci cw = Inr ch'
      \<longrightarrow> t2_build_id (PStr s) mnc lac ci mode lw cw
            = Inr (upper (zfill 3 (remove_ws s)) @ upper (t2_mnc_s mode (t2_digits mnc)) @ lh' @ ch'))
   \<and> (mode \<noteq> ''2'' \<and> mode \<noteq> ''3'' \<and> py_int_of_str (remove_ws t) = None
        \<and> norm_digits mcc (Some 3) (Some 3) = Inr m
        \<and> to_hex lac lw = Inr lh \<and> to_hex ci cw = Inr ch
      \<longrightarrow> build_id mcc (PStr t) lac ci 3 mode lw cw
            = Inr (upper m @ upper (remove_ws t) @ lh @ ch))
   \<and> (mode \<noteq> ''2'' \<and> mode \<noteq> ''3'' \<and> py_int_of_str (remove_ws t) = None
        \<and> t2_to_hex lac lw = Inr lh' \<and> t2_to_hex ci cw = Inr ch'
      \<longrightarrow> t2_build_id mcc (PStr t) lac ci mode lw cw
            = Inr (upper (zfill 3 (t2_digits mcc)) @ upper (remove_ws t) @ lh' @ ch'))
   \<and> (build_id mcc mnc lac ci 3 mode lw cw = Inr ident \<and> \<not> isna mcc \<longrightarrow> 3 \<le> length ident)
   \<and> (t2_build_id mcc mnc lac ci mode lw cw = Inr ident' \<longrightarrow> 3 \<le> length ident')
   \<and> (load_access_compound_ids rows mode lw cw = Inr ids \<longrightarrow> [] \<notin> set ids)
   \<and> (fetch_access_ids cfg rows = Inr ids' \<longrightarrow> [] \<notin> set ids')
   \<and> (main a = Inr (var1, var2, var3, ngci, nsai) \<longrightarrow> [] \<notin> set var1)
   \<and> (t2_main cfg rows gci sai = Inr (var1', var2', var3', ngci', nsai') \<longrightarrow> [] \<notin> set var1')"
proof -
  assume w: "0 \<le> lw" "0 \<le> cw"
  have c1: "(\<exists>ident. build_id mcc mnc lac ci mw mode lw cw = Inr ident)
        \<longleftrightarrow> (isna lac \<or> reads_as_number lac) \<and> (isna ci \<or> reads_as_number ci)
             \<and> \<not> is_infinite mcc \<and> \<not> is_infinite mnc"
  proof
    assume "\<exists>ident. build_id mcc mnc lac ci mw mode lw cw = Inr ident"
    then show "(isna lac \<or> reads_as_number lac) \<and> (isna ci \<or> reads_as_number ci)
             \<and> \<not> is_infinite mcc \<and> \<not> is_infinite mnc"
      using build_id_returns by blast
  next
    assume "(isna lac \<or> reads_as_number lac) \<and> (isna ci \<or> reads_as_number ci)
             \<and> \<not> is_infinite mcc \<and> \<not> is_infinite mnc"
    then show "\<exists>ident. build_id mcc mnc lac ci mw mode lw cw = Inr ident"
      by (intro build_id_completes w) blast+
  qed
  have c2: "(\<exists>ident. t2_build_id mcc mnc lac ci mode lw cw = Inr ident)
        \<longleftrightarrow> (isna lac \<or> is_blank lac \<or> reads_as_number_comma lac)
             \<and> (isna ci \<or> is_blank ci \<or> reads_as_number_comma ci)"
  proof
    assume "\<exists>ident. t2_build_id mcc mnc lac ci mode lw cw = Inr ident"
    then show "(isna lac \<or> is_blank lac \<or> reads_as_number_comma lac)
             \<and> (isna ci \<or> is_blank ci \<or> reads_as_number_comma ci)"
      using t2_build_id_returns by blast
  next
    assume "(isna lac \<or> is_blank lac \<or> reads_as_number_comma lac)
             \<and> (isna ci \<or> is_blank ci \<or> reads_as_number_comma ci)"
    then show "\<exists>ident. t2_build_id mcc mnc lac ci mode lw cw = Inr ident"
      by (intro t2_build_id_completes w) blast+
  qed
  have p1: "build_id (PStr s) mnc lac ci 3 mode lw cw
            = Inr (upper (zfill 3 (remove_ws s)) @ upper (mnc_str mode raw) @ lh @ ch)"
    if "norm_digits mnc None None = Inr raw \<and> to_hex lac lw = Inr lh \<and> to_hex ci cw = Inr ch"
  proof -
    have m: "(if (3::int) \<noteq> 0 then norm_digits (PStr s) (Some 3) (Some 3)
              else norm_digits (PStr s) None None) = Inr (zfill 3 (remove_ws s))"
      by (simp add: norm_digits_text)
    from that have r: "norm_digits mnc None None = Inr raw" and l: "to_hex lac lw = Inr lh"
      and c: "to_hex ci cw = Inr ch" by blast+
    show ?thesis
      using build_id_parts [OF m r l c, of mode] to_hex_upper [OF l] to_hex_upper [OF c] by simp
  qed
  have p2: "t2_build_id (PStr s) mnc lac ci mode lw cw
            = Inr (upper (zfill 3 (remove_ws s)) @ upper (t2_mnc_s mode (t2_digits mnc)) @ lh' @ ch')"
    if "t2_to_hex lac lw = Inr lh' \<and> t2_to_hex ci cw = Inr ch'"
  proof -
    from that have l: "t2_to_hex lac lw = Inr lh'" and c: "t2_to_hex ci cw = Inr ch'" by blast+
    show ?thesis
      using t2_build_id_parts [OF l c, of "PStr s" mnc mode] t2_to_hex_upper [OF l] t2_to_hex_upper [OF c]
      by (simp add: t2_digits_text)
  qed
  have q1: "build_id mcc (PStr t) lac ci 3 mode lw cw = Inr (upper m @ upper (remove_ws t) @ lh @ ch)"
    if "mode \<noteq> ''2'' \<and> mode \<noteq> ''3'' \<and> py_int_of_str (remove_ws t) = None
        \<and> norm_digits mcc (Some 3) (Some 3) = Inr m
        \<and> to_hex lac lw = Inr lh \<and> to_hex ci cw = Inr ch"
  proof -
    from that have md: "mode \<noteq> ''2''" "mode \<noteq> ''3''" and u: "py_int_of_str (remove_ws t) = None"
      and n: "norm_digits mcc (Some 3) (Some 3) = Inr m"
      and l: "to_hex lac lw = Inr lh" and c: "to_hex ci cw = Inr ch" by blast+
    have m: "(if (3::int) \<noteq> 0 then norm_digits mcc (Some 3) (Some 3)
              else norm_digits mcc None None) = Inr m"
      by (simp add: n)
    have r: "norm_digits (PStr t) None None = Inr (remove_ws t)" by (rule norm_digits_text_raw)
    show ?thesis
      using build_id_parts [OF m r l c, of mode] to_hex_upper [OF l] to_hex_upper [OF c]
      by (simp add: mnc_str_auto_unparsed [OF md u])
  qed
  have q2: "t2_build_id mcc (PStr t) lac ci mode lw cw
            = Inr (upper (zfill 3 (t2_digits mcc)) @ upper (remove_ws t) @ lh' @ ch')"
    if "mode \<noteq> ''2'' \<and> mode \<noteq> ''3'' \<and> py_int_of_str (remove_ws t) = None
        \<and> t2_to_hex lac lw = Inr lh' \<and> t2_to_hex ci cw = Inr ch'"
  proof -
    from that have md: "mode \<noteq> ''2''" "mode \<noteq> ''3''" and u: "py_int_of_str (remove_ws t) = None"
      and l: "t2_to_hex lac lw = Inr lh'" and c: "t2_to_hex ci cw = Inr ch'" by blast+
    show ?thesis
      using t2_build_id_parts [OF l c, of mcc "PStr t" mode] t2_to_hex_upper [OF l] t2_to_hex_upper [OF c]
      by (simp add: t2_digits_text t2_mnc_s_eq mnc_str_auto_unparsed [OF md u])
  qed
  have n1: "3 \<le> length ident" if "build_id mcc mnc lac ci 3 mode lw cw = Inr ident \<and> \<not> isna mcc"
    using build_id_present_mcc_wide [of mcc mnc lac ci 3 mode lw cw ident] that by simp
  have n2: "3 \<le> length ident'" if "t2_build_id mcc mnc lac ci mode lw cw = Inr ident'"
    using that by (rule t2_build_id_no_space(3))
  show ?thesis
    apply (intro conjI impI)
    subgoal by (rule c1)
    subgoal by (rule c2)
    subgoal by (rule p1)
    subgoal by (rule p2)
    subgoal by (rule q1)
    subgoal by (rule q2)
    subgoal by (rule n1)
    subgoal by (rule n2)
    subgoal by (rule load_access_compound_ids_nonempty)
    subgoal by (rule fetch_access_ids_nonempty)
    subgoal by (rule main_canonical_nonempty)
    subgoal by (rule t2_main_canonical_nonempty)
    done
qed

lemma completion_example:
  "reads_as_number (PInt 10)" "reads_as_number (PStr ''20.0'')" "\<not> is_infinite (PStr ''abc'')"
  "\<not> is_infinite (PInt 1)" "reads_as_number_comma (PStr ''10,5'')" "is_blank (PStr '' '')"
  "load_access_compound_ids [(PNone, PNone, PNone, PNone), (PInt 250, PInt 1, PInt 10, PInt 20)] ''auto'' 4 4
     = Inr [''25001000A0014'']"
  "\<not> isna (PStr ''abc'')" "\<not> reads_as_number (PStr ''abc'')"
  by code_simp+

theorem builder_completion_witness:
  "(0::int) \<le> 4
   \<and> reads_as_number (PInt 10) \<and> reads_as_number (PStr ''20.0'')
   \<and> \<not> is_infinite (PStr ''abc'') \<and> \<not> is_infinite (PInt 1)
   \<and> (\<exists>ident. build_id (PStr ''abc'') (PInt 1) (PInt 10) (PStr ''20.0'') 3 ''auto'' 4 4 = Inr ident)
   \<and> reads_as_number_comma (PStr ''10,5'') \<and> is_blank (PStr '' '')
   \<and> (\<exists>ident. t2_build_id (PStr ''abc'') (PInt 1) (PStr ''10,5'') (PStr '' '') ''auto'' 4 4 = Inr ident)
   \<and> \<not> isna (PStr ''abc'') \<and> \<not> reads_as_number (PStr ''abc'')
   \<and> (\<nexists>ident. build_id (PInt 250) (PInt 1) (PStr ''abc'') (PInt 20) 3 ''auto'' 4 4 = Inr ident)
   \<and> load_access_compound_ids [(PNone, PNone, PNone, PNone), (PInt 250, PInt 1, PInt 10, PInt 20)] ''auto'' 4 4
       = Inr [''25001000A0014'']
   \<and> [] \<notin> set [''25001000A0014'']"
proof -
  note e = completion_example
  have w: "(0::int) \<le> 4" by simp
  have a: "\<exists>ident. build_id (PStr ''abc'') (PInt 1) (PInt 10) (PStr ''20.0'') 3 ''auto'' 4 4 = Inr ident"
    using builder_completion [OF w w, where lac = "PInt 10" and ci = "PStr ''20.0''"
      and mcc = "PStr ''abc''" and mnc = "PInt 1" and mw = 3 and mode = "''auto''", THEN conjunct1]
      e(1-4)
    by simp
  have b: "\<exists>ident. t2_build_id (PStr ''abc'') (PInt 1) (PStr ''10,5'') (PStr '' '') ''auto'' 4 4 = Inr ident"
    using builder_completion [OF w w, where lac = "PStr ''10,5''" and ci = "PStr '' ''"
      and mcc = "PStr ''abc''" and mnc = "PInt 1" and mode = "''auto''",
      THEN conjunct2, THEN conjunct1] e(5,6)
    by simp
  have r: "\<nexists>ident. build_id (PInt 250) (PInt 1) (PStr ''abc'') (PInt 20) 3 ''auto'' 4 4 = Inr ident"
    using builder_completion [OF w w, where lac = "PStr ''abc''" and ci = "PInt 20"
      and mcc = "PInt 250" and mnc = "PInt 1" and mw = 3 and mode = "''auto''", THEN conjunct1]
      e(8,9)
    by simp
  have c: "[] \<notin> set [''25001000A0014'']" by simp
  show ?thesis
    by (intro conjI w e(1-9) a b r c)
qed


subsection \<open>Where the variants agree\<close>

lemma norm_digits_eq_t2_digits:
  assumes "case v of PInt _ \<Rightarrow> True | PStr _ \<Rightarrow> True | PNone \<Rightarrow> True | PFloat f \<Rightarrow> f = FNan"
  shows "norm_digits v None mx = Inr (t2_digits v)"
  using assms
  by (auto simp: norm_digits_def t2_digits_def isna_def py_int_def py_str_def
      strip_no_space str_of_int_no_space remove_ws_id split: pyval.splits)

lemma norm_digits_3_eq_zfill:
  assumes "case v of PInt _ \<Rightarrow> True | PStr _ \<Rightarrow> True | _ \<Rightarrow> False"
  shows "norm_digits v (Some 3) mx = Inr (zfill 3 (t2_digits v))"
  using assms
  by (auto simp: norm_digits_def t2_digits_def isna_def py_int_def py_str_def Let_def
      strip_no_space str_of_int_no_space remove_ws_id split: pyval.splits)

lemma replace_comma_id: "CHR '','' \<notin> set s \<Longrightarrow> replace_comma s = s"
  unfolding replace_comma_def by (intro map_idI) auto

lemma to_hex_eq_t2_to_hex:
  assumes "same_reading v"
  shows "to_hex v w = t2_to_hex v w"
proof (cases v)
  case PNone
  then show ?thesis by (simp add: to_hex_def t2_to_hex_def isna_def)
next
  case (PInt i)
  then show ?thesis
    by (simp add: to_hex_def t2_to_hex_def isna_def py_int_def py_str_def)
next
  case (PFloat f)
  show ?thesis
  proof (cases f)
    case (FInf b)
    have "py_float (PStr (replace_comma (str_of_float (FInf b)))) = Inr (FInf b)"
      by (cases b) (simp_all add: str_of_float_def replace_comma_def py_float_def float_of_inf_text)
    then show ?thesis
      using str_of_float_nonblank [of f]
      by (simp add: PFloat FInf to_hex_def t2_to_hex_def isna_def py_int_def py_str_def py_float_def
          int_of_float_def)
  qed (use str_of_float_nonblank [of f] in
      \<open>simp_all add: PFloat to_hex_def t2_to_hex_def isna_def py_int_def py_str_def int_of_float_def\<close>)
next
  case (PStr s)
  with assms have s: "strip s \<noteq> []" "CHR '','' \<notin> set s" by (simp_all add: same_reading_def)
  show ?thesis
    by (simp add: PStr to_hex_def t2_to_hex_def isna_def py_str_def s replace_comma_id
        cong: sum.case_cong)
qed

lemma build_id_eq_t2_build_id:
  assumes "common_row (mcc, mnc, lac, ci)"
  shows "build_id mcc mnc lac ci 3 mode lw cw = t2_build_id mcc mnc lac ci mode lw cw"
proof -
  from assms have
    m: "case mcc of PInt _ \<Rightarrow> True | PStr _ \<Rightarrow> True | _ \<Rightarrow> False"
    and n: "case mnc of PInt _ \<Rightarrow> True | PStr _ \<Rightarrow> True | PNone \<Rightarrow> True | PFloat f \<Rightarrow> f = FNan"
    and l: "same_reading lac" and c: "same_reading ci"
    by (auto simp: common_row_def split: pyval.splits)
  show ?thesis
    by (simp add: build_id_def t2_build_id_def norm_digits_3_eq_zfill [OF m]
        norm_digits_eq_t2_digits [OF n] to_hex_eq_t2_to_hex [OF l] to_hex_eq_t2_to_hex [OF c]
        t2_mnc_s_eq Let_def cong: sum.case_cong)
qed

lemma append_eq_fetch:
  assumes "list_all common_row rows"
  shows "append_ids rows (MNC_MODE cfg) (LAC_HEX_WIDTH cfg) (CI_HEX_WIDTH cfg)
           = fetch_access_ids cfg rows"
  using assms
proof (induction rows)
  case Nil
  then show ?case by (simp add: fetch_access_ids_def)
next
  case (Cons r rows)
  obtain mcc mnc lac ci where r: "r = (mcc, mnc, lac, ci)" by (cases r)
  from Cons.prems have cr: "common_row (mcc, mnc, lac, ci)" and rest: "list_all common_row rows"
    by (simp_all add: r)
  show ?case
    using Cons.IH [OF rest]
    by (auto simp: r fetch_access_ids_def build_id_eq_t2_build_id [OF cr] split: sum.splits)
qed

text \<open>Integers of magnitude at most \<open>2^53\<close> pass through binary64 unchanged.\<close>

lemma bitlen_pos: "0 < n \<Longrightarrow> 0 < bitlen n"
  by (subst bitlen.simps) simp

lemma bitlen_bounds: "0 < n \<Longrightarrow> 2 ^ (bitlen n - 1) \<le> n \<and> n < 2 ^ bitlen n"
proof (induction n rule: bitlen.induct)
  case (1 n)
  show ?case
  proof (cases "n div 2 = 0")
    case True
    with 1 have "n = 1" by (simp add: div_eq_0_iff) 
    from True have b0: "bitlen (n div 2) = 0" by (simp add: bitlen.simps)
    show ?thesis using \<open>n = 1\<close> \<open>0 < n\<close> b0 by (subst (1 2) bitlen.simps) simp
  next
    case False
    then have p: "0 < n div 2" by simp
    from 1 have n0: "n \<noteq> 0" by simp
    from "1.IH" [OF n0 p] have ih: "2 ^ (bitlen (n div 2) - 1) \<le> n div 2" "n div 2 < 2 ^ bitlen (n div 2)"
      by simp_all
    have bl: "bitlen n = Suc (bitlen (n div 2))" using n0 by (subst bitlen.simps) simp
    obtain k where k: "bitlen (n div 2) = Suc k"
      using bitlen_pos [OF p] by (cases "bitlen (n div 2)") auto
    from ih have "2 * 2 ^ k \<le> n" "n < 2 * 2 ^ Suc k" unfolding k by simp_all
    then show ?thesis unfolding bl k by simp
  qed
qed

lemma floor_log2_of_nat:
  assumes "0 < n"
  shows "floor_log2 (of_nat n) = int (bitlen n) - 1"
proof -
  have q: "quotient_of (of_nat n) = (int n, 1)"
    using quotient_of_int [of "int n"] by simp
  have b1: "bitlen (Suc 0) = Suc 0" by code_simp
  have bp: "0 < bitlen n" using assms by (rule bitlen_pos)
  have "(2::nat) ^ (bitlen n - 1) \<le> n" using bitlen_bounds [OF assms] by simp
  then have "(of_nat (2 ^ (bitlen n - 1)) :: rat) \<le> of_nat n" by (simp only: of_nat_le_iff)
  then have le: "pow_int 2 (int (bitlen n) - 1) \<le> of_nat n"
    using bp by (simp add: pow_int_def nat_diff_distrib')
  show ?thesis
    unfolding floor_log2_def q Let_def prod.case using le bp by (simp add: b1)
qed

lemma round_half_even_of_int: "round_half_even (of_int m) = m"
  by (simp add: round_half_even_def)

lemma round_double_pos_exact:
  assumes "0 < n" "n \<le> 2 ^ 53"
  shows "round_double_pos (of_nat n) = FFin (of_nat n)"
proof -
  let ?b = "bitlen n"
  have bp: "0 < ?b" using assms(1) by (rule bitlen_pos)
  from bitlen_bounds [OF assms(1)] have lo: "2 ^ (?b - 1) \<le> n" and hi: "n < 2 ^ ?b" by simp_all
  from lo assms(2) have p: "(2::nat) ^ (?b - 1) \<le> 2 ^ 53" by (rule order_trans)
  have "(1::nat) < 2" by simp
  from power_le_imp_le_exp [OF this p] have b54: "?b - 1 \<le> 53" .
  have fl: "floor_log2 (of_nat n) = int ?b - 1" by (rule floor_log2_of_nat [OF assms(1)])
  have mx: "max (int ?b - 1 - 52) (- 1074) = int ?b - 53" by simp
  have r: "of_int (round_half_even (of_nat n / pow_int 2 (int ?b - 53))) * pow_int 2 (int ?b - 53)
            = (of_nat n :: rat)"
  proof (cases "?b \<le> 53")
    case True
    define k where "k = 53 - ?b"
    have u: "pow_int 2 (int ?b - 53) = 1 / 2 ^ k"
      using True by (auto simp: pow_int_def k_def nat_diff_distrib')
    have "(of_nat n :: rat) / (1 / 2 ^ k) = of_int (int n * 2 ^ k)" by simp
    then have "round_half_even (of_nat n / (1 / 2 ^ k)) = int n * 2 ^ k"
      by (simp only: round_half_even_of_int)
    then show ?thesis unfolding u by simp
  next
    case False
    with b54 have b: "?b = 54" by simp
    with lo assms(2) have n: "n = 2 ^ 53" by simp
    have u: "pow_int 2 (int ?b - 53) = 2" by (simp add: b pow_int_def)
    have "(of_nat n :: rat) / 2 = of_int (2 ^ 52)" by (simp add: n)
    then have "round_half_even (of_nat n / 2) = 2 ^ 52" by (simp only: round_half_even_of_int)
    then show ?thesis unfolding u by (simp add: n)
  qed
  show ?thesis
    unfolding round_double_pos_def fl mx Let_def r using fl b54 by simp
qed

lemma round_double_exact:
  assumes "\<bar>i\<bar> \<le> 2 ^ 53"
  shows "round_double (i < 0) (of_int \<bar>i\<bar>) = FFin (of_int i)"
proof (cases "i = 0")
  case True
  then show ?thesis by (simp add: round_double_def)
next
  case False
  define n where "n = nat \<bar>i\<bar>"
  have n: "0 < n" "n \<le> 2 ^ 53" using False assms by (simp_all add: n_def nat_le_iff)
  have q: "(of_int \<bar>i\<bar> :: rat) = of_nat n" by (simp add: n_def)
  have nz: "(of_nat n :: rat) \<noteq> 0" using n by simp
  show ?thesis
    unfolding q round_double_def round_double_pos_exact [OF n]
    using nz False by (auto simp: n_def)
qed

lemma int_of_float_of_int: "int_of_float (FFin (of_int i)) = Inr i"
  by (simp add: int_of_float_def)

lemma as_float64_simps:
  "as_float64 PNone = PFloat FNan" "as_float64 (PFloat f) = PFloat f" "as_float64 (PStr s) = PStr s"
  "\<bar>i\<bar> \<le> 2 ^ 53 \<Longrightarrow> as_float64 (PInt i) = PFloat (FFin (of_int i))"
  using round_double_exact [of i] by (simp_all add: as_float64_def)

lemma norm_digits_as_float64:
  assumes "exact_value v"
  shows "norm_digits (as_float64 v) mw mx = norm_digits v mw mx"
proof (cases v)
  case (PInt i)
  with assms have "\<bar>i\<bar> \<le> 2 ^ 53" by (simp add: exact_value_def)
  then show ?thesis
    by (simp add: PInt as_float64_simps norm_digits_def isna_def py_int_def int_of_float_of_int)
qed (simp_all add: as_float64_simps norm_digits_def isna_def)

lemma to_hex_as_float64:
  assumes "exact_value v"
  shows "to_hex (as_float64 v) w = to_hex v w"
proof (cases v)
  case (PInt i)
  with assms have "\<bar>i\<bar> \<le> 2 ^ 53" by (simp add: exact_value_def)
  then show ?thesis
    by (simp add: PInt as_float64_simps to_hex_def isna_def py_int_def int_of_float_of_int)
qed (simp_all add: as_float64_simps to_hex_def isna_def)

lemma exact_value_as_float64: "exact_value (as_float64 v)"
  by (cases v) (simp_all add: as_float64_def exact_value_def)

lemma build_id_handed_over:
  assumes "exact_row (mcc, mnc, lac, ci)"
    and "mcc' = mcc \<or> mcc' = as_float64 mcc" and "mnc' = mnc \<or> mnc' = as_float64 mnc"
    and "lac' = lac \<or> lac' = as_float64 lac" and "ci' = ci \<or> ci' = as_float64 ci"
  shows "build_id mcc' mnc' lac' ci' mw mode lw cw = build_id mcc mnc lac ci mw mode lw cw"
proof -
  from assms(1) have e: "exact_value mcc" "exact_value mnc" "exact_value lac" "exact_value ci"
    by (simp_all add: exact_row_def)
  have 1: "norm_digits mcc' a b = norm_digits mcc a b" for a b
    using assms(2) norm_digits_as_float64 [OF e(1)] by auto
  have 2: "norm_digits mnc' a b = norm_digits mnc a b" for a b
    using assms(3) norm_digits_as_float64 [OF e(2)] by auto
  have 3: "to_hex lac' w = to_hex lac w" for w
    using assms(4) to_hex_as_float64 [OF e(3)] by auto
  have 4: "to_hex ci' w = to_hex ci w" for w
    using assms(5) to_hex_as_float64 [OF e(4)] by auto
  show ?thesis unfolding build_id_def by (simp only: 1 2 3 4)
qed

lemma append_ids_handed_over:
  assumes "list_all exact_row rows"
    and "\<And>mcc mnc lac ci. \<exists>mcc' mnc' lac' ci'. g (mcc, mnc, lac, ci) = (mcc', mnc', lac', ci')
           \<and> (mcc' = mcc \<or> mcc' = as_float64 mcc) \<and> (mnc' = mnc \<or> mnc' = as_float64 mnc)
           \<and> (lac' = lac \<or> lac' = as_float64 lac) \<and> (ci' = ci \<or> ci' = as_float64 ci)"
  shows "append_ids (map g rows) mode lw cw = append_ids rows mode lw cw
         \<and> list_all exact_row (map g rows)"
  using assms(1)
proof (induction rows)
  case Nil
  then show ?case by simp
next
  case (Cons r rows)
  obtain mcc mnc lac ci where r: "r = (mcc, mnc, lac, ci)" by (cases r)
  from Cons.prems have er: "exact_row (mcc, mnc, lac, ci)" and rest: "list_all exact_row rows"
    by (simp_all add: r)
  from assms(2) [of mcc mnc lac ci] obtain mcc' mnc' lac' ci' where
    g: "g (mcc, mnc, lac, ci) = (mcc', mnc', lac', ci')"
    and h: "mcc' = mcc \<or> mcc' = as_float64 mcc" "mnc' = mnc \<or> mnc' = as_float64 mnc"
      "lac' = lac \<or> lac' = as_float64 lac" "ci' = ci \<or> ci' = as_float64 ci"
    by blast
  have b: "build_id mcc' mnc' lac' ci' 3 mode lw cw = build_id mcc mnc lac ci 3 mode lw cw"
    by (rule build_id_handed_over [OF er h])
  from er have e: "exact_value mcc" "exact_value mnc" "exact_value lac" "exact_value ci"
    by (simp_all add: exact_row_def)
  have x: "exact_row (mcc', mnc', lac', ci')"
    using h e exact_value_as_float64 by (auto simp: exact_row_def)
  from Cons.IH [OF rest] have ih: "append_ids (map g rows) mode lw cw = append_ids rows mode lw cw"
    "list_all exact_row (map g rows)" by simp_all
  show ?case by (simp add: r g b x ih cong: sum.case_cong)
qed

lemma load_exact:
  assumes "list_all exact_row tbl"
  shows "load_access_compound_ids tbl mode lw cw = append_ids tbl mode lw cw"
proof -
  obtain ds rows where f: "read_sql tbl = (ds, rows)" by (cases "read_sql tbl")
  obtain d1 d2 d3 d4 where ds: "ds = (d1, d2, d3, d4)" by (cases ds) auto
  define typed where "typed = (\<lambda>d v. if d = Float64 then as_float64 v else v)"
  define g1 where "g1 = (\<lambda>(mcc, mnc, lac, ci). (typed d1 mcc, typed d2 mnc, typed d3 lac, typed d4 ci))"
  define g2 where "g2 = (\<lambda>(mcc, mnc, lac, ci). (as_float64 mcc, as_float64 mnc, as_float64 lac, as_float64 ci))"
  from f have rows: "rows = map g1 tbl"
    unfolding read_sql_def Let_def ds g1_def typed_def by auto
  have 1: "append_ids rows mode lw cw = append_ids tbl mode lw cw \<and> list_all exact_row rows"
    unfolding rows by (rule append_ids_handed_over [OF assms]) (simp add: g1_def typed_def)
  have 2: "append_ids (map g2 rows) mode lw cw = append_ids rows mode lw cw
           \<and> list_all exact_row (map g2 rows)"
    by (rule append_ids_handed_over) (use 1 in \<open>simp_all add: g2_def\<close>)
  have "iterrows (read_sql tbl) = rows \<or> iterrows (read_sql tbl) = map g2 rows"
    unfolding f ds iterrows_def g2_def by simp
  then show ?thesis unfolding load_access_compound_ids_def using 1 2 by auto
qed

lemma load_eq_fetch:
  assumes "list_all common_row rows" and "list_all exact_row rows"
  shows "load_access_compound_ids rows (MNC_MODE cfg) (LAC_HEX_WIDTH cfg) (CI_HEX_WIDTH cfg)
           = fetch_access_ids cfg rows"
  using load_exact [OF assms(2)] append_eq_fetch [OF assms(1)] by simp

text \<open>
  Beyond \<open>2^53\<close> the data frame does change what test.py builds. In a table with an
  absent MNC in one row, the CI \<open>2^53 + 1\<close> of another row reaches the builder of test.py
  as the float \<open>2^53\<close>, and the builder of test2.py as the integer it is.
\<close>

lemma bitlen_numeral:
  "bitlen 0 = 0" "bitlen (Suc 0) = Suc 0" "bitlen (numeral k) = Suc (bitlen (numeral k div 2))"
  by (simp_all add: bitlen.simps)

lemma as_float64_wide: "as_float64 (PInt 9007199254740993) = PFloat (FFin 9007199254740992)"
proof -
  have b1: "bitlen 9007199254740993 = 54" by (simp add: bitlen_numeral)
  have b2: "bitlen 9007199254740992 = 54" by (simp add: bitlen_numeral)
  have f1: "floor_log2 9007199254740993 = 53"
    using floor_log2_of_nat [of 9007199254740993] by (simp add: b1)
  have f2: "floor_log2 9007199254740992 = 53"
    using floor_log2_of_nat [of 9007199254740992] by (simp add: b2)
  have u: "pow_int 2 (max (53 - 52) (- 1074)) = 2" by (simp add: pow_int_def)
  have fl: "\<lfloor>9007199254740993 / 2 :: rat\<rfloor> = 4503599627370496"
    by (rule floor_unique) simp_all
  have h: "round_half_even (9007199254740993 / 2) = 4503599627370496"
    unfolding round_half_even_def Let_def fl by simp
  have "round_double_pos 9007199254740993 = FFin 9007199254740992"
    unfolding round_double_pos_def Let_def f1 u h by (simp add: f2)
  then show ?thesis by (simp add: as_float64_def round_double_def)
qed

lemma wide_rows:
  "iterrows (read_sql [(PInt 250, PInt 1, PInt 10, PInt 9007199254740993),
                       (PInt 250, PNone, PInt 10, PInt 20)])
     = [(PFloat (FFin 250), PFloat (FFin 1), PFloat (FFin 10), PFloat (FFin 9007199254740992)),
        (PFloat (FFin 250), PFloat FNan, PFloat (FFin 10), PFloat (FFin 20))]"
proof -
  have s: "as_float64 (PInt 250) = PFloat (FFin 250)" "as_float64 (PInt 1) = PFloat (FFin 1)"
    "as_float64 (PInt 10) = PFloat (FFin 10)" "as_float64 (PInt 20) = PFloat (FFin 20)"
    using as_float64_simps(4) [of 250] as_float64_simps(4) [of 1] as_float64_simps(4) [of 10]
      as_float64_simps(4) [of 20] by simp_all
  show ?thesis
    by (simp add: iterrows_def read_sql_def column_dtype_def in_int64_def Let_def s as_float64_wide
        as_float64_simps(1-3))
qed

lemma wide_hex:
  "format_X 4 9007199254740992 = ''20000000000000''"
  "format_X 4 9007199254740993 = ''20000000000001''"
  by (simp_all add: digit_eval)


lemma wide_builds:
  "build_id (PInt 250) (PInt 1) (PInt 10) (PInt 9007199254740992) 3 ''auto'' 4 4
     = Inr ''25001000A20000000000000''"
  "t2_build_id (PInt 250) (PInt 1) (PInt 10) (PInt 9007199254740993) ''auto'' 4 4
     = Inr ''25001000A20000000000001''"
proof -
  have m: "(if (3::int) \<noteq> 0 then norm_digits (PInt 250) (Some 3) (Some 3)
            else norm_digits (PInt 250) None None) = Inr ''250''" by code_simp
  have r: "norm_digits (PInt 1) None None = Inr ''1''" by code_simp
  have l: "to_hex (PInt 10) 4 = Inr ''000A''" by code_simp
  have c: "to_hex (PInt 9007199254740992) 4 = Inr ''20000000000000''"
    by (simp add: to_hex_int wide_hex)
  have n: "mnc_str ''auto'' ''1'' = ''01''" by code_simp
  have u: "upper ''25001000A20000000000000'' = ''25001000A20000000000000''" by code_simp
  show "build_id (PInt 250) (PInt 1) (PInt 10) (PInt 9007199254740992) 3 ''auto'' 4 4
     = Inr ''25001000A20000000000000''"
    using build_id_parts [OF m r l c, of "''auto''"] by (simp add: n u)
  have l2: "t2_to_hex (PInt 10) 4 = Inr ''000A''" by code_simp
  have c2: "t2_to_hex (PInt 9007199254740993) 4 = Inr ''20000000000001''"
    by (simp add: t2_to_hex_int wide_hex)
  have d: "zfill 3 (t2_digits (PInt 250)) = ''250''" "t2_mnc_s ''auto'' (t2_digits (PInt 1)) = ''01''"
    by code_simp+
  have u2: "upper ''25001000A20000000000001'' = ''25001000A20000000000001''" by code_simp
  show "t2_build_id (PInt 250) (PInt 1) (PInt 10) (PInt 9007199254740993) ''auto'' 4 4
     = Inr ''25001000A20000000000001''"
    using t2_build_id_parts [OF l2 c2, of "PInt 250" "PInt 1" "''auto''"] by (simp add: d u2)
qed

lemma wide_second_row:
  "build_id (PInt 250) PNone (PInt 10) (PInt 20) 3 ''auto'' 4 4 = Inr ''250000A0014''"
  "t2_build_id (PInt 250) PNone (PInt 10) (PInt 20) ''auto'' 4 4 = Inr ''250000A0014''"
  by code_simp+

lemma wide_integer_example:
  "load_access_compound_ids
     [(PInt 250, PInt 1, PInt 10, PInt 9007199254740993), (PInt 250, PNone, PInt 10, PInt 20)]
     ''auto'' 4 4 = Inr [''25001000A20000000000000'', ''250000A0014'']"
  "fetch_access_ids default_settings
     [(PInt 250, PInt 1, PInt 10, PInt 9007199254740993), (PInt 250, PNone, PInt 10, PInt 20)]
     = Inr [''25001000A20000000000001'', ''250000A0014'']"
proof -
  have e: "exact_row (PInt 250, PInt 1, PInt 10, PInt 9007199254740992)"
    "exact_row (PInt 250, PNone, PInt 10, PInt 20)"
    by (simp_all add: exact_row_def exact_value_def)
  have a: "PFloat (FFin 250) = as_float64 (PInt 250)" "PFloat (FFin 1) = as_float64 (PInt 1)"
    "PFloat (FFin 10) = as_float64 (PInt 10)" "PFloat (FFin 20) = as_float64 (PInt 20)"
    "PFloat (FFin 9007199254740992) = as_float64 (PInt 9007199254740992)"
    "PFloat FNan = as_float64 PNone"
    using as_float64_simps(4) [of 250] as_float64_simps(4) [of 1] as_float64_simps(4) [of 10]
      as_float64_simps(4) [of 20] as_float64_simps(4) [of 9007199254740992]
    by (simp_all add: as_float64_simps(1))
  have 1: "build_id (PFloat (FFin 250)) (PFloat (FFin 1)) (PFloat (FFin 10))
             (PFloat (FFin 9007199254740992)) 3 ''auto'' 4 4 = Inr ''25001000A20000000000000''"
    using build_id_handed_over [OF e(1) disjI2 [OF a(1)] disjI2 [OF a(2)] disjI2 [OF a(3)] disjI2 [OF a(5)]]
    by (simp add: wide_builds(1))
  have 2: "build_id (PFloat (FFin 250)) (PFloat FNan) (PFloat (FFin 10)) (PFloat (FFin 20)) 3 ''auto'' 4 4
             = Inr ''250000A0014''"
    using build_id_handed_over [OF e(2) disjI2 [OF a(1)] disjI2 [OF a(6)] disjI2 [OF a(3)] disjI2 [OF a(4)]]
    by (simp add: wide_second_row(1))
  show "load_access_compound_ids
     [(PInt 250, PInt 1, PInt 10, PInt 9007199254740993), (PInt 250, PNone, PInt 10, PInt 20)]
     ''auto'' 4 4 = Inr [''25001000A20000000000000'', ''250000A0014'']"
    unfolding load_access_compound_ids_def wide_rows by (simp add: 1 2)
  show "fetch_access_ids default_settings
     [(PInt 250, PInt 1, PInt 10, PInt 9007199254740993), (PInt 250, PNone, PInt 10, PInt 20)]
     = Inr [''25001000A20000000000001'', ''250000A0014'']"
    by (simp add: fetch_access_ids_def default_settings_def wide_builds(2) wide_second_row(2))
qed

lemma append_ids_upper:
  "append_ids rows mode lw cw = Inr ids \<Longrightarrow> map upper ids = ids"
proof (induction rows arbitrary: ids)
  case Nil
  then show ?case by simp
next
  case (Cons r rows)
  obtain mcc mnc lac ci where r: "r = (mcc, mnc, lac, ci)" by (cases r)
  from Cons.prems obtain s ids' where
    b: "build_id mcc mnc lac ci 3 mode lw cw = Inr s"
    and l: "append_ids rows mode lw cw = Inr ids'"
    and i: "ids = (if s \<noteq> [] then s # ids' else ids')"
    by (auto simp: r split: sum.splits)
  from build_id_no_space(2) [OF b] Cons.IH [OF l] show ?case by (simp add: i)
qed

lemma ids_upper:
  "load_access_compound_ids rows mode lw cw = Inr ids \<Longrightarrow> map upper ids = ids"
  unfolding load_access_compound_ids_def by (rule append_ids_upper)

lemma extract_agree:
  "extract_from_df df column = Inr r \<longleftrightarrow> t2_extract (normalize_text column) df = Inr r"
  by (auto simp: extract_from_df_def resolve_column_def t2_extract_def normalize_colnames_def
      normalize_text_def Let_def split: option.splits sum.splits)

lemma extract_fail_agree:
  "isl (extract_from_df df column) \<longleftrightarrow> isl (t2_extract (normalize_text column) df)"
  by (auto simp: extract_from_df_def resolve_column_def t2_extract_def normalize_colnames_def
      normalize_text_def Let_def split: option.splits sum.splits)

lemma search_sheets_agree:
  "search_sheets wb column tried = Inr r
     \<longleftrightarrow> t2_search_sheets wb (normalize_text column) tried' = Inr r"
proof (induction wb arbitrary: tried tried')
  case Nil
  then show ?case by simp
next
  case (Cons s wb)
  obtain name df where s: "s = (name, df)" by (cases s)
  show ?case
  proof (cases "extract_from_df df column")
    case (Inr x)
    then have "t2_extract (normalize_text column) df = Inr x" using extract_agree by blast
    with Inr show ?thesis by (simp add: s)
  next
    case (Inl e)
    then have "isl (t2_extract (normalize_text column) df)"
      using extract_fail_agree [of df column] by simp
    then obtain e' where "t2_extract (normalize_text column) df = Inl e'"
      by (cases "t2_extract (normalize_text column) df") auto
    with Inl extract_from_df_KeyError [OF Inl] Cons.IH show ?thesis by (simp add: s)
  qed
qed

lemma excel_column_agree:
  "load_excel_column wb column sheet = Inr r \<longleftrightarrow> read_excel_column wb column sheet = Inr r"
proof (cases sheet)
  case (Some sel)
  have k: "lower (remove_ws column) = normalize_text column" by (simp add: normalize_text_def)
  show ?thesis
    using extract_agree
    by (auto simp: Some load_excel_column_def read_excel_column_def k Let_def split: sum.splits)
next
  case None
  have k: "lower (remove_ws column) = normalize_text column" by (simp add: normalize_text_def)
  show ?thesis
  proof (cases wb)
    case Nil
    then show ?thesis
      by (simp add: None load_excel_column_def read_excel_column_def read_sheet_def)
  next
    case (Cons s rest)
    obtain name df where s: "s = (name, df)" by (cases s)
    show ?thesis
    proof (cases "t2_extract (normalize_text column) df")
      case (Inr x)
      then have "extract_from_df df column = Inr x" using extract_agree by blast
      with Inr show ?thesis
        by (simp add: None Cons s load_excel_column_def read_excel_column_def read_sheet_def k)
    next
      case (Inl e)
      then show ?thesis
        using search_sheets_agree [of wb column "[]" r "[]"]
        by (simp add: None Cons s load_excel_column_def read_excel_column_def read_sheet_def k)
    qed
  qed
qed

lemma main_agree:
  assumes "list_all common_row (table a)" and "list_all exact_row (table a)" and "same_config a cfg"
  shows "main a = Inr rep \<longleftrightarrow> t2_main cfg (table a) (gci_xlsx a) (sai_xlsx a) = Inr rep"
proof -
  from assms(3) have c: "mnc_mode a = MNC_MODE cfg" "lac_width a = LAC_HEX_WIDTH cfg"
    "ci_width a = CI_HEX_WIDTH cfg" "gci_column a = GCI_COLUMN cfg"
    "map_option SheetName (gci_sheet a) = GCI_SHEET cfg" "sai_column a = SAI_COLUMN cfg"
    "map_option SheetName (sai_sheet a) = SAI_SHEET cfg"
    by (simp_all add: same_config_def)
  note ids = load_eq_fetch [OF assms(1,2), of cfg]
  show ?thesis
  proof (cases "fetch_access_ids cfg (table a)")
    case (Inl e)
    then show ?thesis using ids by (simp add: main_def t2_main_def c)
  next
    case (Inr var1)
    then have l: "load_access_compound_ids (table a) (MNC_MODE cfg) (LAC_HEX_WIDTH cfg) (CI_HEX_WIDTH cfg) = Inr var1"
      using ids by simp
    have u: "map upper var1 = var1" using ids_upper [OF l] .
    show ?thesis
    proof (cases "read_excel_column (gci_xlsx a) (GCI_COLUMN cfg) (GCI_SHEET cfg)")
      case gl: (Inl e)
      then have "isl (load_excel_column (gci_xlsx a) (GCI_COLUMN cfg) (GCI_SHEET cfg))"
        using excel_column_agree [of "gci_xlsx a" "GCI_COLUMN cfg" "GCI_SHEET cfg"]
        by (cases "load_excel_column (gci_xlsx a) (GCI_COLUMN cfg) (GCI_SHEET cfg)") auto
      then show ?thesis using gl Inr l
        by (auto simp: main_def t2_main_def c Let_def split: sum.splits)
    next
      case gr: (Inr var2)
      then have g: "load_excel_column (gci_xlsx a) (GCI_COLUMN cfg) (GCI_SHEET cfg) = Inr var2"
        using excel_column_agree by blast
      show ?thesis
      proof (cases "read_excel_column (sai_xlsx a) (SAI_COLUMN cfg) (SAI_SHEET cfg)")
        case sl: (Inl e)
        then have "isl (load_excel_column (sai_xlsx a) (SAI_COLUMN cfg) (SAI_SHEET cfg))"
          using excel_column_agree [of "sai_xlsx a" "SAI_COLUMN cfg" "SAI_SHEET cfg"]
          by (cases "load_excel_column (sai_xlsx a) (SAI_COLUMN cfg) (SAI_SHEET cfg)") auto
        then show ?thesis using sl gr g Inr l
          by (auto simp: main_def t2_main_def c Let_def split: sum.splits)
      next
        case sr: (Inr var3)
        then have s: "load_excel_column (sai_xlsx a) (SAI_COLUMN cfg) (SAI_SHEET cfg) = Inr var3"
          using excel_column_agree by blast
        show ?thesis
          using Inr l gr g sr s u by (simp add: main_def t2_main_def c Let_def)
      qed
    qed
  qed
qed


lemma upper_fixed: "\<forall>c\<in>set s. upper_char c = c \<Longrightarrow> upper s = s"
  unfolding upper_def by (intro map_idI) auto

lemma upper_zfill_str_of_int [simp]: "upper (zfill w (str_of_int i)) = zfill w (str_of_int i)"
proof -
  have "upper_char c = c" if "c \<in> set (str_of_int i)" for c
    using that dec_digits_chars [of "nat (- i)"] dec_digits_chars [of "nat i"] dec_char_props(2)
    by (auto simp: str_of_int_def split: if_splits)
  then show ?thesis using set_zfill [of w "str_of_int i"] by (intro upper_fixed) auto
qed

lemma upper_str_of_int [simp]: "upper (str_of_int i) = str_of_int i"
  by (simp add: str_of_int_def dec_digits_upper)

lemma hex_digits_no_sign: "hex_digits n = c # cs \<Longrightarrow> c \<noteq> CHR ''+'' \<and> c \<noteq> CHR ''-''"
proof -
  assume h: "hex_digits n = c # cs"
  then have "c \<in> set (hex_digits n)" by simp
  then have "is_upper_hex c" by (rule hex_digits_is_upper_hex)
  then show ?thesis by (auto simp: is_upper_hex_def)
qed

lemma zfill_hex_digits:
  "zfill w (hex_digits n) = replicate (nat w - length (hex_digits n)) CHR ''0'' @ hex_digits n"
proof (cases "hex_digits n")
  case Nil
  then show ?thesis by simp
next
  case (Cons c cs)
  from hex_digits_no_sign [OF Cons] show ?thesis by (auto simp: Cons)
qed

lemma dec_to_hex_str_width: "dec_to_hex_str v (Some w) = format_X w v"
proof (cases "v < 0")
  case True
  then have "nat \<bar>v\<bar> = nat (- v)" by simp
  with True show ?thesis
    by (auto simp: dec_to_hex_str_def format_X_def format_zero_def)
next
  case False
  then have "nat \<bar>v\<bar> = nat v" by simp
  with False show ?thesis
    by (simp add: dec_to_hex_str_def format_X_def format_zero_def zfill_hex_digits)
qed

lemma build_id_eq_combined:
  assumes "0 \<le> lw" "0 \<le> cw" and "(mode = ''2'' \<and> nw = 2) \<or> (mode = ''3'' \<and> nw = 3)"
  shows "build_id (PInt mcc) (PInt mnc) (PInt lac) (PInt ci) 3 mode lw cw
           = Inr (combined mcc mnc lac ci (Some lw) (Some cw) 3 nw)"
proof -
  have d: "t2_digits (PInt i) = str_of_int i" for i
    by (simp add: t2_digits_def isna_def py_str_def remove_ws_id str_of_int_no_space)
  have m: "(if (3::int) \<noteq> 0 then norm_digits (PInt mcc) (Some 3) (Some 3)
            else norm_digits (PInt mcc) None None) = Inr (zfill 3 (str_of_int mcc))"
    using norm_digits_3_eq_zfill [of "PInt mcc"] by (simp add: d)
  have r: "norm_digits (PInt mnc) None None = Inr (str_of_int mnc)"
    using norm_digits_eq_t2_digits [of "PInt mnc"] by (simp add: d)
  have s: "mnc_str mode (str_of_int mnc) = zfill nw (str_of_int mnc)"
    using assms(3) by (auto simp: mnc_str_fixed)
  show ?thesis
    using build_id_parts [OF m r to_hex_int [OF assms(1)] to_hex_int [OF assms(2)], where mode = mode]
    by (simp add: s combined_def dec_to_hex_str_width)
qed

lemma length_combine_dataframes:
  "length (combine_dataframes excel_df access_df lac_w ci_w mcc_w mnc_w)
     = min (length excel_df) (length access_df)"
  by (simp add: combine_dataframes_def Let_def)

lemma nth_combine_dataframes:
  assumes "k < min (length excel_df) (length access_df)"
  shows "combine_dataframes excel_df access_df lac_w ci_w mcc_w mnc_w ! k
           = (excel_df ! k, access_df ! k,
              case access_df ! k of (mcc, mnc, lac, ci) \<Rightarrow> combined mcc mnc lac ci lac_w ci_w mcc_w mnc_w)"
proof -
  obtain mcc mnc lac ci where r: "access_df ! k = (mcc, mnc, lac, ci)" by (cases "access_df ! k")
  from assms have k: "k < length excel_df" "k < length access_df" by simp_all
  show ?thesis
    using k by (simp add: combine_dataframes_def Let_def r)
qed

text \<open>
  C8, the claim as it stands fails. The two reconciling scripts differ in more than
  their defaults. For a row whose MCC is absent test.py builds the identifier without an
  MCC part, "01000A0014", and test2.py pads the absent MCC to "000" and builds
  "00001000A0014"; so with the same settings and the same spreadsheet the candidate
  "00001000A0014" is reported as unmatched by the first and not by the second. A LAC of
  "10,5" stops test.py and is read as 10 by test2.py. The third script performs no
  reconciliation: it sets the combined column beside the spreadsheet column row by row.
\<close>

theorem variants_differ_counterexample:
  "same_config
     \<lparr>table = [(PNone, PInt 1, PInt 10, PInt 20)], mnc_mode = ''auto'', lac_width = 4, ci_width = 4,
      gci_xlsx = [(''Sheet1'', [(''GCI'', [Some ''00001000A0014'']), (''SAI'', [Some ''x''])])],
      gci_column = ''GCI'', gci_sheet = None,
      sai_xlsx = [(''Sheet1'', [(''GCI'', [Some ''00001000A0014'']), (''SAI'', [Some ''x''])])],
      sai_column = ''SAI'', sai_sheet = None\<rparr> default_settings
   \<and> main
     \<lparr>table = [(PNone, PInt 1, PInt 10, PInt 20)], mnc_mode = ''auto'', lac_width = 4, ci_width = 4,
      gci_xlsx = [(''Sheet1'', [(''GCI'', [Some ''00001000A0014'']), (''SAI'', [Some ''x''])])],
      gci_column = ''GCI'', gci_sheet = None,
      sai_xlsx = [(''Sheet1'', [(''GCI'', [Some ''00001000A0014'']), (''SAI'', [Some ''x''])])],
      sai_column = ''SAI'', sai_sheet = None\<rparr>
       = Inr ([''01000A0014''], [''00001000A0014''], [''X''], [''00001000A0014''], [''X''])
   \<and> t2_main default_settings [(PNone, PInt 1, PInt 10, PInt 20)]
        [(''Sheet1'', [(''GCI'', [Some ''00001000A0014'']), (''SAI'', [Some ''x''])])]
        [(''Sheet1'', [(''GCI'', [Some ''00001000A0014'']), (''SAI'', [Some ''x''])])]
       = Inr ([''00001000A0014''], [''00001000A0014''], [''X''], [], [''X''])
   \<and> build_id (PInt 250) (PInt 1) (PStr ''10,5'') (PInt 20) 3 ''auto'' 4 4 = Inl ValueError
   \<and> t2_build_id (PInt 250) (PInt 1) (PStr ''10,5'') (PInt 20) ''auto'' 4 4 = Inr ''25001000A0014''
   \<and> combine_dataframes [Some ''25001000A0014'', Some ''ABC123''] [(250, 1, 10, 20)] None None 3 3
       = [(Some ''25001000A0014'', (250, 1, 10, 20), ''250001A14'')]"
  by (intro conjI; code_simp)

text \<open>
  C8, amended. test.py and test2.py agree wherever no field is read differently. On
  every row whose MCC is an integer or text, whose MNC is absent, an integer or text, and
  whose LAC and CI are anything but blank text and text with a comma, the two builders,
  given the same values, return the same identifier or raise the same exception. test.py
  receives the table through a data frame, which hands integers over as floats when a
  column holds an absent value or a float; on tables of such rows whose integers have
  magnitude at most \<open>2^53\<close>, with the same mode, widths, column names, sheets and
  workbooks, the two scripts build the same canonical list or raise the same exception,
  and they fail together or produce the same report. The two column readers return the
  same candidate list whenever either returns one. The third script,
  parse\_excel\_access.py, builds for integer rows (MCC and MNC not negative) the
  identifier the builder of the other two gives under the mode "2" or "3" matching its
  MNC width and the same hex widths. Its output has as many rows as the shorter of the
  spreadsheet column and the table, and row \<open>k\<close> of the output holds cell \<open>k\<close> of the
  spreadsheet column, row \<open>k\<close> of the table and the combined text of that row; it computes
  no difference.
\<close>

theorem variants_agree:
  "(common_row (mcc, mnc, lac, ci)
      \<longrightarrow> build_id mcc mnc lac ci 3 mode lw cw = t2_build_id mcc mnc lac ci mode lw cw)
   \<and> (list_all common_row rows \<and> list_all exact_row rows
      \<longrightarrow> load_access_compound_ids rows (MNC_MODE cfg) (LAC_HEX_WIDTH cfg) (CI_HEX_WIDTH cfg)
            = fetch_access_ids cfg rows)
   \<and> (load_excel_column wb column sheet = Inr r \<longleftrightarrow> read_excel_column wb column sheet = Inr r)
   \<and> (list_all common_row (table a) \<and> list_all exact_row (table a) \<and> same_config a cfg
      \<longrightarrow> (main a = Inr rep \<longleftrightarrow> t2_main cfg (table a) (gci_xlsx a) (sai_xlsx a) = Inr rep))
   \<and> (0 \<le> imcc \<and> 0 \<le> imnc \<and> 0 \<le> lw \<and> 0 \<le> cw
      \<longrightarrow> build_id (PInt imcc) (PInt imnc) (PInt ilac) (PInt ici) 3 ''2'' lw cw
              = Inr (combined imcc imnc ilac ici (Some lw) (Some cw) 3 2)
        \<and> build_id (PInt imcc) (PInt imnc) (PInt ilac) (PInt ici) 3 ''3'' lw cw
              = Inr (combined imcc imnc ilac ici (Some lw) (Some cw) 3 3))
   \<and> length (combine_dataframes excel_df access_df lac_w ci_w mcc_w mnc_w)
       = min (length excel_df) (length access_df)
   \<and> (\<forall>k. k < min (length excel_df) (length access_df)
      \<longrightarrow> combine_dataframes excel_df access_df lac_w ci_w mcc_w mnc_w ! k
            = (excel_df ! k, access_df ! k,
               case access_df ! k of
                 (kmcc, kmnc, klac, kci) \<Rightarrow> combined kmcc kmnc klac kci lac_w ci_w mcc_w mnc_w))"
proof (intro conjI impI allI)
  show "build_id mcc mnc lac ci 3 mode lw cw = t2_build_id mcc mnc lac ci mode lw cw"
    if "common_row (mcc, mnc, lac, ci)"
    using that by (rule build_id_eq_t2_build_id)
  show "load_access_compound_ids rows (MNC_MODE cfg) (LAC_HEX_WIDTH cfg) (CI_HEX_WIDTH cfg)
            = fetch_access_ids cfg rows" if "list_all common_row rows \<and> list_all exact_row rows"
    using that by (intro load_eq_fetch) blast+
  show "load_excel_column wb column sheet = Inr r \<longleftrightarrow> read_excel_column wb column sheet = Inr r"
    by (rule excel_column_agree)
  show "main a = Inr rep \<longleftrightarrow> t2_main cfg (table a) (gci_xlsx a) (sai_xlsx a) = Inr rep"
    if "list_all common_row (table a) \<and> list_all exact_row (table a) \<and> same_config a cfg"
    using that main_agree by blast
  show "build_id (PInt imcc) (PInt imnc) (PInt ilac) (PInt ici) 3 ''2'' lw cw
              = Inr (combined imcc imnc ilac ici (Some lw) (Some cw) 3 2)"
    if "0 \<le> imcc \<and> 0 \<le> imnc \<and> 0 \<le> lw \<and> 0 \<le> cw"
    using that by (intro build_id_eq_combined) simp_all
  show "build_id (PInt imcc) (PInt imnc) (PInt ilac) (PInt ici) 3 ''3'' lw cw
              = Inr (combined imcc imnc ilac ici (Some lw) (Some cw) 3 3)"
    if "0 \<le> imcc \<and> 0 \<le> imnc \<and> 0 \<le> lw \<and> 0 \<le> cw"
    using that by (intro build_id_eq_combined) simp_all
  show "length (combine_dataframes excel_df access_df lac_w ci_w mcc_w mnc_w)
       = min (length excel_df) (length access_df)"
    by (rule length_combine_dataframes)
  show "combine_dataframes excel_df access_df lac_w ci_w mcc_w mnc_w ! k
            = (excel_df ! k, access_df ! k,
               case access_df ! k of
                 (kmcc, kmnc, klac, kci) \<Rightarrow> combined kmcc kmnc klac kci lac_w ci_w mcc_w mnc_w)"
    if "k < min (length excel_df) (length access_df)" for k
    using that by (rule nth_combine_dataframes)
qed


lemma example_run:
  "list_all common_row (table example_args)"
  "list_all exact_row (table example_args)"
  "same_config example_args default_settings"
  "main example_args = Inr example_report"
  by code_simp+

theorem variants_agree_witness:
  "list_all common_row (table example_args)
   \<and> list_all exact_row (table example_args)
   \<and> same_config example_args default_settings
   \<and> main example_args = Inr example_report
   \<and> t2_main default_settings (table example_args) (gci_xlsx example_args) (sai_xlsx example_args)
       = Inr example_report
   \<and> build_id (PInt 250) (PInt 1) (PInt 10) (PInt 20) 3 ''3'' 4 4
       = Inr (combined 250 1 10 20 (Some 4) (Some 4) 3 3)
   \<and> (0::nat) < min (length [Some ''25001000A0014'', Some ''ABC123'']) (length [(250::int, 1::int, 10::int, 20::int)])
   \<and> combine_dataframes [Some ''25001000A0014'', Some ''ABC123''] [(250, 1, 10, 20)] None None 3 3 ! 0
       = (Some ''25001000A0014'', (250, 1, 10, 20), combined 250 1 10 20 None None 3 3)"
proof -
  note e = example_run
  have "main example_args = Inr example_report
          \<longleftrightarrow> t2_main default_settings (table example_args) (gci_xlsx example_args) (sai_xlsx example_args)
                = Inr example_report"
    using variants_agree [where a = example_args and cfg = default_settings and rep = example_report,
        THEN conjunct2, THEN conjunct2, THEN conjunct2, THEN conjunct1] e(1,2,3)
    by simp
  then have t: "t2_main default_settings (table example_args) (gci_xlsx example_args) (sai_xlsx example_args)
                = Inr example_report"
    using e(4) by simp
  have c: "build_id (PInt 250) (PInt 1) (PInt 10) (PInt 20) 3 ''3'' 4 4
       = Inr (combined 250 1 10 20 (Some 4) (Some 4) 3 3)"
    using variants_agree [where imcc = 250 and imnc = 1 and ilac = 10 and ici = 20 and lw = 4 and cw = 4,
        THEN conjunct2, THEN conjunct2, THEN conjunct2, THEN conjunct2, THEN conjunct1]
    by simp
  have k: "(0::nat) < min (length [Some ''25001000A0014'', Some ''ABC123''])
                          (length [(250::int, 1::int, 10::int, 20::int)])"
    by simp
  have p: "combine_dataframes [Some ''25001000A0014'', Some ''ABC123''] [(250, 1, 10, 20)] None None 3 3 ! 0
       = (Some ''25001000A0014'', (250, 1, 10, 20), combined 250 1 10 20 None None 3 3)"
    using variants_agree [where excel_df = "[Some ''25001000A0014'', Some ''ABC123'']"
        and access_df = "[(250, 1, 10, 20)]" and lac_w = None and ci_w = None and mcc_w = 3 and mnc_w = 3,
        THEN conjunct2, THEN conjunct2, THEN conjunct2, THEN conjunct2, THEN conjunct2, THEN conjunct2,
        THEN spec, of 0] k
    by simp
  show ?thesis by (intro conjI e t c k p)
qed

end
